theory Spec2Isabelle
  imports Complex_Main "HOL-Library.Monad_Syntax" "HOL-Library.Sublist"
begin

section \<open>Data model (types.ts and the mutable state of App)\<close>

text \<open>
  JavaScript numbers are modelled as ideal reals: no rounding and no overflow.  The one
  place where the source can leave the finite numbers from finite inputs, the division in
  \<open>getPinchRatio\<close>, is modelled with an explicit result type \<open>jsnum\<close>.  Timestamps
  (\<open>Date.now()\<close>) are integers.

  Field names follow the source; a name that is used by two interfaces, or that clashes with
  a constant of HOL, carries a suffix: \<open>x\<close>, \<open>y\<close>, \<open>z\<close> of \<open>Point\<close> and
  \<open>HandLandmark\<close> are \<open>px\<close>, \<open>py\<close>, \<open>pz\<close>; \<open>x\<close>, \<open>y\<close>, \<open>color\<close>,
  \<open>size\<close> of \<open>Particle\<close> are \<open>x_p\<close>, \<open>y_p\<close>, \<open>color_p\<close>, \<open>size_p\<close>;
  \<open>color\<close> and \<open>size\<close> of the state are \<open>color_s\<close> and \<open>size_s\<close>.
\<close>

datatype ToolType = PEN | ERASER

record Point =
  px :: real
  py :: real

text \<open>A \<open>HandLandmark\<close> has the fields of a \<open>Point\<close> and a depth; as in the source, a
  landmark can be passed wherever a point is read.\<close>

record HandLandmark = Point +
  pz :: real

record DrawingPath =
  points :: "Point list"
  color :: string
  width :: real
  isEraser :: bool

record Particle =
  x_p :: real
  y_p :: real
  vx :: real
  vy :: real
  color_p :: string
  size_p :: real
  life :: real

datatype AppMode = IDLE | HOVER | DRAWING | MENU

text \<open>
  The record \<open>state\<close> is \<open>state.current\<close> of the source, followed by the two pieces of
  React state that the helpers write (\<open>uiVisible\<close>, \<open>toolbarProps\<close>) and by \<open>clicked\<close>,
  the history of calls of \<open>triggerClick\<close> (oldest first).  \<open>clicked\<close> is not a field of
  the source: it records the selection events, which the source emits as DOM and React
  effects only.
\<close>

record state =
  paths :: "DrawingPath list"
  currentPath :: "Point list"
  particles :: "Particle list"
  tool :: ToolType
  color_s :: string
  size_s :: real
  mode :: AppMode
  consecutivePinchFrames :: int
  consecutiveOpenFrames :: int
  cursorPos :: Point
  smoothedPos :: "Point option"
  handSize :: real
  isMenuOpen :: bool
  selectionProgress :: real
  hoveredId :: "string option"
  lastGestureTime :: int
  lastLandmarks :: "HandLandmark list option"
  cameraReady :: bool
  uiVisible :: bool
  toolbarProps :: "ToolType \<times> string \<times> real"
  clicked :: "string list"

definition initialState :: state where
  "initialState =
     \<lparr>paths = [], currentPath = [], particles = [],
      tool = PEN, color_s = ''#00FF00'', size_s = 5,
      mode = IDLE, consecutivePinchFrames = 0, consecutiveOpenFrames = 0,
      cursorPos = \<lparr>px = 0, py = 0\<rparr>, smoothedPos = None, handSize = 0,
      isMenuOpen = False, selectionProgress = 0, hoveredId = None, lastGestureTime = 0,
      lastLandmarks = None, cameraReady = False,
      uiVisible = False, toolbarProps = (PEN, ''#00FF00'', 5), clicked = []\<rparr>"

subsection \<open>Configuration constants\<close>

definition TARGET_FPS :: real where "TARGET_FPS = 30"
definition FRAME_INTERVAL :: real where "FRAME_INTERVAL = 1000 / TARGET_FPS"
definition PINCH_START_THRESHOLD :: real where "PINCH_START_THRESHOLD = 0.09"
definition PINCH_END_THRESHOLD :: real where "PINCH_END_THRESHOLD = 0.14"
definition PINCH_DEBOUNCE_FRAMES :: int where "PINCH_DEBOUNCE_FRAMES = 3"
definition MIN_DRAW_DIST_PX :: real where "MIN_DRAW_DIST_PX = 2"
definition DWELL_TIME_MS :: real where "DWELL_TIME_MS = 600"

section \<open>Geometry and gesture classifier (utils/geometry.ts)\<close>

text \<open>
  Reading \<open>landmarks[i]\<close> beyond the end of the array gives \<open>undefined\<close>, and the first
  read of a coordinate of \<open>undefined\<close> throws a \<open>TypeError\<close>.  Every function that reads
  landmarks therefore returns an option: \<open>None\<close> is the thrown \<open>TypeError\<close>.
\<close>

definition landmarkAt :: "HandLandmark list \<Rightarrow> nat \<Rightarrow> HandLandmark option" where
  "landmarkAt landmarks i = (if i < length landmarks then Some (landmarks ! i) else None)"

definition distanceSq :: "'a Point_scheme \<Rightarrow> 'b Point_scheme \<Rightarrow> real" where
  "distanceSq p1 p2 = (px p1 - px p2) ^ 2 + (py p1 - py p2) ^ 2"

definition distance :: "'a Point_scheme \<Rightarrow> 'b Point_scheme \<Rightarrow> real" where
  "distance p1 p2 = sqrt (distanceSq p1 p2)"

definition lerp :: "real \<Rightarrow> real \<Rightarrow> real \<Rightarrow> real" where
  "lerp start stop t = start * (1 - t) + stop * t"

definition getHandSize :: "HandLandmark list \<Rightarrow> real option" where
  "getHandSize landmarks =
     do { a \<leftarrow> landmarkAt landmarks 0; b \<leftarrow> landmarkAt landmarks 9; Some (distance a b) }"

text \<open>The quotient of two finite numbers in JavaScript: dividing by zero gives
  \<open>Infinity\<close> or \<open>NaN\<close> (in HOL \<open>x / 0 = 0\<close>).  The numerator of the one division of
  the source is a distance, so it is never negative.\<close>

datatype jsnum = Finite real | Infinity | NaN

definition jsdiv :: "real \<Rightarrow> real \<Rightarrow> jsnum" where
  "jsdiv a b = (if b \<noteq> 0 then Finite (a / b)
                else if a = 0 then NaN else Infinity)"

text \<open>\<open>a > c\<close> and \<open>a < c\<close> for a finite constant \<open>c\<close>: every comparison with \<open>NaN\<close>
  is false.\<close>

fun js_gt :: "jsnum \<Rightarrow> real \<Rightarrow> bool" where
  "js_gt (Finite a) c = (a > c)"
| "js_gt Infinity c = True"
| "js_gt NaN c = False"

fun js_lt :: "jsnum \<Rightarrow> real \<Rightarrow> bool" where
  "js_lt (Finite a) c = (a < c)"
| "js_lt Infinity c = False"
| "js_lt NaN c = False"

definition getPinchRatio :: "HandLandmark list \<Rightarrow> real \<Rightarrow> jsnum option" where
  "getPinchRatio landmarks hs =
     do { a \<leftarrow> landmarkAt landmarks 8; b \<leftarrow> landmarkAt landmarks 4;
          Some (jsdiv (distance a b) hs) }"

definition getPinchMidpoint :: "HandLandmark list \<Rightarrow> Point option" where
  "getPinchMidpoint landmarks =
     do { a \<leftarrow> landmarkAt landmarks 8; b \<leftarrow> landmarkAt landmarks 4;
          Some \<lparr>px = (px a + px b) / 2, py = (py a + py b) / 2\<rparr> }"

definition isFingerExtended :: "HandLandmark list \<Rightarrow> nat \<Rightarrow> nat \<Rightarrow> bool option" where
  "isFingerExtended landmarks tipIdx pipIdx =
     do { w \<leftarrow> landmarkAt landmarks 0; t \<leftarrow> landmarkAt landmarks tipIdx;
          p \<leftarrow> landmarkAt landmarks pipIdx;
          Some (distanceSq w t > distanceSq w p) }"

definition detectOpenPalm :: "HandLandmark list \<Rightarrow> bool option" where
  "detectOpenPalm landmarks =
     do { i \<leftarrow> isFingerExtended landmarks 8 6;
          if \<not> i then Some False else
     do { m \<leftarrow> isFingerExtended landmarks 12 10;
          if \<not> m then Some False else
     do { r \<leftarrow> isFingerExtended landmarks 16 14;
          if \<not> r then Some False else
     do { p \<leftarrow> isFingerExtended landmarks 20 18;
          if \<not> p then Some False else
     do { t4 \<leftarrow> landmarkAt landmarks 4; t17 \<leftarrow> landmarkAt landmarks 17;
          t3 \<leftarrow> landmarkAt landmarks 3;
          Some (distance t4 t17 > distance t3 t17) } } } } }"

definition detectVictory :: "HandLandmark list \<Rightarrow> bool option" where
  "detectVictory landmarks =
     do { i \<leftarrow> isFingerExtended landmarks 8 6;
          m \<leftarrow> isFingerExtended landmarks 12 10;
          r \<leftarrow> isFingerExtended landmarks 16 14;
          p \<leftarrow> isFingerExtended landmarks 20 18;
          Some (i \<and> m \<and> \<not> r \<and> \<not> p) }"

definition isInSafeZone :: "Point \<Rightarrow> bool" where
  "isInSafeZone point \<longleftrightarrow>
     px point > 0.05 \<and> px point < 0.95 \<and> py point > 0.05 \<and> py point < 0.95"

section \<open>Stroke accumulator\<close>

text \<open>
  Arrays are values here.  This is what the source does: \<open>endStroke\<close> hands the array of
  the active stroke over to the new path and gives \<open>currentPath\<close> a fresh array, every
  point pushed is the object \<open>cursorPos\<close>, which each frame replaces by a fresh copy of
  \<open>smoothedPos\<close> and never writes into, and no path object is written after its creation.
  So no array or point is reachable through two fields that are both written.
\<close>

definition startStroke :: "Point \<Rightarrow> state \<Rightarrow> state" where
  "startStroke p s = s\<lparr>currentPath := [p]\<rparr>"

definition addPointToStroke :: "Point \<Rightarrow> state \<Rightarrow> state" where
  "addPointToStroke p s =
     (if length (currentPath s) = 0 then s
      else let lastP = currentPath s ! (length (currentPath s) - 1);
               distSq = (px lastP - px p) ^ 2 + (py lastP - py p) ^ 2
           in if distSq > MIN_DRAW_DIST_PX * MIN_DRAW_DIST_PX
              then s\<lparr>currentPath := currentPath s @ [p]\<rparr>
              else s)"

definition endStroke :: "state \<Rightarrow> state" where
  "endStroke s =
     (if length (currentPath s) > 0
      then s\<lparr>paths := paths s @
                 [\<lparr>points = currentPath s, color = color_s s, width = size_s s,
                   isEraser = (tool s = ERASER)\<rparr>],
              currentPath := []\<rparr>
      else s)"

text \<open>
  \<open>triggerDissolve\<close>: the inner loop \<open>for (i = 0; i < path.points.length; i += 4)\<close>
  over one path.  \<open>Math.random()\<close> is a parameter: \<open>rnd k\<close> is the result of the
  \<open>k\<close>-th call in this invocation of \<open>triggerDissolve\<close>; each particle draws three
  numbers, in the order \<open>vx\<close>, \<open>vy\<close>, \<open>size\<close>.  The loop returns the particle array and
  the number of random numbers drawn so far.
\<close>

definition newParticle :: "DrawingPath \<Rightarrow> nat \<Rightarrow> (nat \<Rightarrow> real) \<Rightarrow> nat \<Rightarrow> Particle" where
  "newParticle path i rnd k =
     \<lparr>x_p = px (points path ! i), y_p = py (points path ! i),
      vx = (rnd k - 0.5) * 4, vy = rnd (k + 1) * 5 + 2,
      color_p = (if isEraser path then ''white'' else color path),
      size_p = rnd (k + 2) * 3 + 1, life = 1.0\<rparr>"

function dissolveLoop ::
  "DrawingPath \<Rightarrow> (nat \<Rightarrow> real) \<Rightarrow> nat \<Rightarrow> Particle list \<times> nat \<Rightarrow> Particle list \<times> nat" where
  "dissolveLoop path rnd i (ps, k) =
     (if i < length (points path)
      then dissolveLoop path rnd (i + 4) (ps @ [newParticle path i rnd k], k + 3)
      else (ps, k))"
  by pat_completeness auto
termination
  by (relation "measure (\<lambda>(path, rnd, i, acc). length (points path) - i)") auto

definition triggerDissolve :: "(nat \<Rightarrow> real) \<Rightarrow> state \<Rightarrow> state" where
  "triggerDissolve rnd s =
     (if length (paths s) = 0 then s
      else s\<lparr>particles := fst (fold (\<lambda>path acc. dissolveLoop path rnd 0 acc) (paths s)
                                    (particles s, 0)),
              paths := [], currentPath := []\<rparr>)"

definition toggleMenu :: "int \<Rightarrow> state \<Rightarrow> state" where
  "toggleMenu time s =
     (let s1 = s\<lparr>isMenuOpen := \<not> isMenuOpen s, lastGestureTime := time\<rparr>;
          s2 = s1\<lparr>mode := (if isMenuOpen s1 then MENU else HOVER)\<rparr>;
          s3 = (if length (currentPath s2) > 0 then endStroke s2 else s2)
      in s3\<lparr>uiVisible := isMenuOpen s3\<rparr>)"

section \<open>Menu dwell selector\<close>

text \<open>The DOM is a parameter: \<open>rects id\<close> is the bounding rectangle of the element with
  that id, or \<open>None\<close> where \<open>document.getElementById\<close> returns \<open>null\<close>.\<close>

record DOMRect =
  left_r :: real
  right_r :: real
  top_r :: real
  bottom_r :: real

definition ids :: "string list" where
  "ids = [''btn-pen'', ''btn-eraser'',
          ''btn-color-0'', ''btn-color-1'', ''btn-color-2'', ''btn-color-3'', ''btn-color-4'',
          ''btn-size-0'', ''btn-size-1'', ''btn-size-2'', ''btn-size-3'']"

fun hitTest :: "(string \<Rightarrow> DOMRect option) \<Rightarrow> real \<Rightarrow> real \<Rightarrow> string list \<Rightarrow> string option" where
  "hitTest rects x y [] = None"
| "hitTest rects x y (i # rest) =
     (case rects i of
        Some r \<Rightarrow>
          if x \<ge> left_r r \<and> x \<le> right_r r \<and> y \<ge> top_r r \<and> y \<le> bottom_r r
          then Some i else hitTest rects x y rest
      | None \<Rightarrow> hitTest rects x y rest)"

text \<open>
  \<open>triggerClick\<close> is called with an element of \<open>ids\<close> only.  For those,
  \<open>colors[parseInt(id.split('-')[2])]\<close> and \<open>sizes[parseInt(id.split('-')[2])]\<close> are the
  two tables below; for any other string the model leaves colour and size as they are.
  The scale pulse of the element is a rendering effect and is left out.
\<close>

definition colorOfButton :: "string \<Rightarrow> string option" where
  "colorOfButton = map_of
     [(''btn-color-0'', ''#FFFFFF''), (''btn-color-1'', ''#FF0000''),
      (''btn-color-2'', ''#00FF00''), (''btn-color-3'', ''#0000FF''),
      (''btn-color-4'', ''#FFFF00'')]"

definition sizeOfButton :: "string \<Rightarrow> real option" where
  "sizeOfButton = map_of
     [(''btn-size-0'', 2), (''btn-size-1'', 5), (''btn-size-2'', 10), (''btn-size-3'', 15)]"

definition triggerClick :: "string \<Rightarrow> state \<Rightarrow> state" where
  "triggerClick i s =
     (let s1 =
        (if i = ''btn-pen'' then s\<lparr>tool := PEN\<rparr>
         else if i = ''btn-eraser'' then s\<lparr>tool := ERASER\<rparr>
         else if prefix ''btn-color-'' i
           then (case colorOfButton i of Some c \<Rightarrow> s\<lparr>color_s := c\<rparr> | None \<Rightarrow> s)
         else if prefix ''btn-size-'' i
           then (case sizeOfButton i of Some z \<Rightarrow> s\<lparr>size_s := z\<rparr> | None \<Rightarrow> s)
         else s)
      in s1\<lparr>toolbarProps := (tool s1, color_s s1, size_s s1),
             clicked := clicked s1 @ [i]\<rparr>)"

definition handleUIInteraction :: "(string \<Rightarrow> DOMRect option) \<Rightarrow> state \<Rightarrow> state" where
  "handleUIInteraction rects s =
     (case hitTest rects (px (cursorPos s)) (py (cursorPos s)) ids of
        Some hit \<Rightarrow>
          if hoveredId s \<noteq> Some hit
          then s\<lparr>hoveredId := Some hit, selectionProgress := 0\<rparr>
          else let s1 = s\<lparr>selectionProgress := selectionProgress s + FRAME_INTERVAL\<rparr>
               in if selectionProgress s1 \<ge> DWELL_TIME_MS
                  then (triggerClick hit s1)\<lparr>selectionProgress := 0, hoveredId := None\<rparr>
                  else s1
      | None \<Rightarrow> s\<lparr>hoveredId := None, selectionProgress := 0\<rparr>)"

section \<open>The per-frame update\<close>

text \<open>The landmark callback \<open>hands.onResults\<close>: \<open>results\<close> is
  \<open>results.multiHandLandmarks\<close>, absent or a list of hands.\<close>

definition onResults :: "HandLandmark list list option \<Rightarrow> state \<Rightarrow> state" where
  "onResults results s =
     (case results of
        Some (h # hs) \<Rightarrow> s\<lparr>lastLandmarks := Some h\<rparr>
      | _ \<Rightarrow> s\<lparr>lastLandmarks := None\<rparr>)"

text \<open>Particle physics, the first block of \<open>update\<close>.\<close>

definition moveParticle :: "Particle \<Rightarrow> Particle" where
  "moveParticle p =
     (let p1 = p\<lparr>x_p := x_p p + (vx p + sin (y_p p * 0.05) * 0.5)\<rparr>;
          p2 = p1\<lparr>y_p := y_p p1 + vy p1\<rparr>
      in p2\<lparr>life := life p2 - 0.02\<rparr>)"

definition physics :: "real \<Rightarrow> Particle list \<Rightarrow> Particle list" where
  "physics height ps = filter (\<lambda>p. life p > 0 \<and> y_p p < height) (map moveParticle ps)"

text \<open>The source of the cursor: the index tip while the menu is open, the pinch midpoint
  otherwise.  Only \<open>x\<close> and \<open>y\<close> of the landmark are read afterwards.\<close>

definition cursorSource :: "HandLandmark list \<Rightarrow> state \<Rightarrow> Point option" where
  "cursorSource landmarks s =
     (if isMenuOpen s
      then map_option (\<lambda>l. \<lparr>px = px l, py = py l\<rparr>) (landmarkAt landmarks 8)
      else getPinchMidpoint landmarks)"

text \<open>The smoothing phase: the speed-adaptive filter, then the copy into \<open>cursorPos\<close>.\<close>

definition smoothing :: "real \<Rightarrow> real \<Rightarrow> state \<Rightarrow> state" where
  "smoothing currX currY s =
     (let sp =
        (case smoothedPos s of
           None \<Rightarrow> \<lparr>px = currX, py = currY\<rparr>
         | Some q \<Rightarrow>
             let dist = sqrt ((currX - px q) ^ 2 + (currY - py q) ^ 2);
                 minAlpha = 0.1;
                 maxAlpha = 0.8;
                 speedFactor = min 1 (dist / 80);
                 alpha = lerp minAlpha maxAlpha speedFactor
             in \<lparr>px = lerp (px q) currX alpha, py = lerp (py q) currY alpha\<rparr>)
      in s\<lparr>smoothedPos := Some sp, cursorPos := sp\<rparr>)"

text \<open>The menu-toggle part of the global gestures (run when the mode is not
  \<open>DRAWING\<close>).\<close>

definition menuGesture :: "int \<Rightarrow> HandLandmark list \<Rightarrow> state \<Rightarrow> state option" where
  "menuGesture now landmarks s =
     (if now - lastGestureTime s > 1000
      then do { palm \<leftarrow> detectOpenPalm landmarks;
                if palm
                then let s1 = s\<lparr>consecutiveOpenFrames := consecutiveOpenFrames s + 1\<rparr>
                     in if consecutiveOpenFrames s1 > 5
                        then Some ((toggleMenu now s1)\<lparr>consecutiveOpenFrames := 0\<rparr>)
                        else Some s1
                else Some (s\<lparr>consecutiveOpenFrames := 0\<rparr>) }
      else Some s)"

text \<open>The mode-specific logic, the last block of \<open>update\<close>.\<close>

definition modeLogic ::
  "(string \<Rightarrow> DOMRect option) \<Rightarrow> HandLandmark list \<Rightarrow> jsnum \<Rightarrow> state \<Rightarrow> state option" where
  "modeLogic rects landmarks pinchRatio s =
     (if isMenuOpen s
      then let s1 = s\<lparr>mode := MENU\<rparr>
           in do { isIndexUp \<leftarrow> isFingerExtended landmarks 8 6;
                   if isIndexUp then Some (handleUIInteraction rects s1)
                   else Some (s1\<lparr>hoveredId := None, selectionProgress := 0\<rparr>) }
      else if mode s = DRAWING
      then (if js_gt pinchRatio PINCH_END_THRESHOLD
            then let s1 = s\<lparr>consecutivePinchFrames := consecutivePinchFrames s - 1\<rparr>
                 in if consecutivePinchFrames s1 < 0
                    then Some ((endStroke s1)\<lparr>mode := HOVER\<rparr>)
                    else Some s1
            else let s1 = s\<lparr>consecutivePinchFrames := PINCH_DEBOUNCE_FRAMES\<rparr>
                 in Some (addPointToStroke (cursorPos s1) s1))
      else (if js_lt pinchRatio PINCH_START_THRESHOLD
            then let s1 = s\<lparr>consecutivePinchFrames := consecutivePinchFrames s + 1\<rparr>
                 in if consecutivePinchFrames s1 > PINCH_DEBOUNCE_FRAMES
                    then Some ((startStroke (cursorPos s1) s1)\<lparr>mode := DRAWING\<rparr>)
                    else Some s1
            else Some (s\<lparr>consecutivePinchFrames := 0, mode := HOVER\<rparr>)))"

text \<open>
  \<open>update width height\<close> (the parameters are \<open>canvasWidth\<close> and \<open>canvasHeight\<close>
  here, after the call site), with its environment as parameters: \<open>now\<close> is \<open>Date.now()\<close>,
  \<open>rects\<close> the DOM, \<open>rnd\<close> the random numbers.  The result \<open>None\<close> is a \<open>TypeError\<close>
  thrown on a landmark array that is too short; the exception leaves \<open>loop\<close> before the
  next frame is requested, so no later update runs.
\<close>

definition update ::
  "real \<Rightarrow> real \<Rightarrow> int \<Rightarrow> (string \<Rightarrow> DOMRect option) \<Rightarrow> (nat \<Rightarrow> real) \<Rightarrow> state \<Rightarrow> state option" where
  "update canvasWidth canvasHeight now rects rnd s0 =
     (let s = s0\<lparr>particles := physics canvasHeight (particles s0)\<rparr> in
      case lastLandmarks s of
        None \<Rightarrow>
          Some ((if mode s = DRAWING then endStroke s else s)\<lparr>mode := IDLE, smoothedPos := None\<rparr>)
      | Some landmarks \<Rightarrow>
          do { hs \<leftarrow> getHandSize landmarks;
               let s = s\<lparr>handSize := hs\<rparr>;
               pinchRatio \<leftarrow> getPinchRatio landmarks (handSize s);
               rawPoint \<leftarrow> cursorSource landmarks s;
               let rawX = 1 - px rawPoint;
               let rawY = py rawPoint;
               if \<not> isInSafeZone \<lparr>px = rawX, py = rawY\<rparr>
               then Some ((if mode s = DRAWING then endStroke s else s)\<lparr>mode := IDLE\<rparr>)
               else
          do { let s = smoothing (rawX * canvasWidth) (rawY * canvasHeight) s;
               if mode s \<noteq> DRAWING
               then do { s \<leftarrow> menuGesture now landmarks s;
                         victory \<leftarrow> detectVictory landmarks;
                         if victory \<and> \<not> isMenuOpen s
                         then Some (triggerDissolve rnd s)
                         else modeLogic rects landmarks pinchRatio s }
               else modeLogic rects landmarks pinchRatio s } })"

section \<open>Frames and reachable states\<close>

text \<open>
  A frame is one call of \<open>update\<close> together with everything it reads from outside the
  state: the landmarks that the detector callback has left in \<open>lastLandmarks\<close> by then
  (\<open>None\<close> when no hand is detected), the canvas size, the clock, the DOM and the random
  numbers.
\<close>

record frame =
  f_landmarks :: "HandLandmark list option"
  f_width :: real
  f_height :: real
  f_now :: int
  f_rects :: "string \<Rightarrow> DOMRect option"
  f_rnd :: "nat \<Rightarrow> real"

definition processFrame :: "frame \<Rightarrow> state \<Rightarrow> state option" where
  "processFrame f s =
     update (f_width f) (f_height f) (f_now f) (f_rects f) (f_rnd f)
       (s\<lparr>lastLandmarks := f_landmarks f\<rparr>)"

fun processFrames :: "frame list \<Rightarrow> state \<Rightarrow> state option" where
  "processFrames [] s = Some s"
| "processFrames (f # fs) s =
     (case processFrame f s of None \<Rightarrow> None | Some s' \<Rightarrow> processFrames fs s')"

text \<open>What \<open>update\<close> computes from the landmarks of a frame before the state machine
  runs: the pinch ratio, and whether the mirrored cursor source lies in the safe zone
  (\<open>menu\<close> is the menu-open flag of the state).\<close>

definition framePinchRatio :: "frame \<Rightarrow> jsnum option" where
  "framePinchRatio f =
     do { landmarks \<leftarrow> f_landmarks f; hs \<leftarrow> getHandSize landmarks;
          getPinchRatio landmarks hs }"

definition frameRawPoint :: "bool \<Rightarrow> frame \<Rightarrow> Point option" where
  "frameRawPoint menu f =
     do { landmarks \<leftarrow> f_landmarks f;
          p \<leftarrow> (if menu
                 then map_option (\<lambda>l. \<lparr>px = px l, py = py l\<rparr>) (landmarkAt landmarks 8)
                 else getPinchMidpoint landmarks);
          Some \<lparr>px = 1 - px p, py = py p\<rparr> }"

definition frameInZone :: "bool \<Rightarrow> frame \<Rightarrow> bool" where
  "frameInZone menu f =
     (case frameRawPoint menu f of None \<Rightarrow> False | Some p \<Rightarrow> isInSafeZone p)"

text \<open>Whether the global-gesture block of \<open>update\<close> acts on frame \<open>f\<close> processed in state
  \<open>s\<close> (it runs in every mode but \<open>DRAWING\<close>): the frame completes the open-palm hold that
  toggles the menu (more than 1000 ms after the last toggle, the open-palm counter passing
  5), or it shows the victory sign, which dissolves the canvas and returns while the menu is
  closed.\<close>

definition firesGlobalGesture :: "frame \<Rightarrow> state \<Rightarrow> bool" where
  "firesGlobalGesture f s =
     (case f_landmarks f of
        None \<Rightarrow> False
      | Some landmarks \<Rightarrow>
          (f_now f - lastGestureTime s > 1000 \<and> detectOpenPalm landmarks = Some True
             \<and> consecutiveOpenFrames s + 1 > 5)
          \<or> detectVictory landmarks = Some True)"

text \<open>The states of a session: the initial state, and every state that the detector
  callback, the camera start-up or a frame update leads to.\<close>

inductive reachable :: "state \<Rightarrow> bool" where
  reach_init: "reachable initialState"
| reach_results: "reachable s \<Longrightarrow> reachable (onResults results s)"
| reach_camera: "reachable s \<Longrightarrow> reachable (s\<lparr>cameraReady := True\<rparr>)"
| reach_update:
    "reachable s \<Longrightarrow> update canvasWidth canvasHeight now rects rnd s = Some s' \<Longrightarrow>
     reachable s'"

section \<open>Auxiliary notions for the statements\<close>

text \<open>The state after the first statements of \<open>update\<close> on a frame with landmarks:
  particles moved and \<open>handSize\<close> stored (\<open>prepared\<close>), then, for a frame in the safe
  zone whose mirrored cursor source is \<open>p\<close>, the smoothing phase (\<open>tracked\<close>).\<close>

definition prepared :: "real \<Rightarrow> real \<Rightarrow> state \<Rightarrow> state" where
  "prepared ch hs s = s\<lparr>particles := physics ch (particles s), handSize := hs\<rparr>"

definition tracked :: "frame \<Rightarrow> real \<Rightarrow> Point \<Rightarrow> state \<Rightarrow> state" where
  "tracked f hs p s =
     smoothing (px p * f_width f) (py p * f_height f)
       (prepared (f_height f) hs (s\<lparr>lastLandmarks := f_landmarks f\<rparr>))"

text \<open>One frame of the dwell selector with the cursor at \<open>c\<close>.\<close>

definition dwellStep :: "(string \<Rightarrow> DOMRect option) \<Rightarrow> Point \<Rightarrow> state \<Rightarrow> state" where
  "dwellStep rects c s = handleUIInteraction rects (s\<lparr>cursorPos := c\<rparr>)"

text \<open>\<open>g\<close> holds one particle of unit life for every fourth point of \<open>path\<close>, from
  index 0 on, in order.\<close>

definition sampledFrom :: "DrawingPath \<Rightarrow> Particle list \<Rightarrow> bool" where
  "sampledFrom path g \<longleftrightarrow>
     length g = nat \<lceil>real (length (points path)) / 4\<rceil> \<and>
     (\<forall>j < length g. x_p (g ! j) = px (points path ! (4 * j)) \<and>
                      y_p (g ! j) = py (points path ! (4 * j)) \<and> life (g ! j) = 1)"

text \<open>The path that \<open>endStroke\<close> appends when the active stroke is not empty.\<close>

definition strokePath :: "state \<Rightarrow> DrawingPath" where
  "strokePath s =
     \<lparr>points = currentPath s, color = color_s s, width = size_s s, isEraser = (tool s = ERASER)\<rparr>"

text \<open>The mode is \<open>DRAWING\<close> exactly when there is an active stroke, and never while
  the menu is open.\<close>

definition strokeInv :: "state \<Rightarrow> bool" where
  "strokeInv s \<longleftrightarrow>
     (mode s = DRAWING \<longleftrightarrow> currentPath s \<noteq> []) \<and> (isMenuOpen s \<longrightarrow> mode s \<noteq> DRAWING)"

section \<open>Example inputs\<close>

text \<open>A hand of 21 landmarks on the vertical line \<open>x = cx\<close>: the wrist at \<open>cy + 0.4\<close>,
  the thumb tip at \<open>cy + gap\<close>, every other landmark (the index tip among them) at \<open>cy\<close>.
  Its hand size is \<open>0.4\<close>, its pinch ratio \<open>gap / 0.4\<close>, and no finger is extended.\<close>

definition exampleHand :: "real \<Rightarrow> real \<Rightarrow> real \<Rightarrow> HandLandmark list" where
  "exampleHand cx cy gap =
     (let w = \<lparr>px = cx, py = cy + 0.4, pz = 0\<rparr>;
          t = \<lparr>px = cx, py = cy + gap, pz = 0\<rparr>;
          c = \<lparr>px = cx, py = cy, pz = 0\<rparr>
      in [w, c, c, c, t, c, c, c, c, c, c, c, c, c, c, c, c, c, c, c, c])"

text \<open>A frame at clock reading \<open>t\<close> (in milliseconds) on a canvas of 1000 by 1000
  pixels, with no toolbar in the DOM.\<close>

definition exampleFrame :: "int \<Rightarrow> HandLandmark list option \<Rightarrow> frame" where
  "exampleFrame t lm =
     \<lparr>f_landmarks = lm, f_width = 1000, f_height = 1000, f_now = t,
      f_rects = (\<lambda>i. None), f_rnd = (\<lambda>k. 1 / 2)\<rparr>"

definition fivePoints :: "Point list" where
  "fivePoints = [\<lparr>px = 10, py = 10\<rparr>, \<lparr>px = 20, py = 10\<rparr>, \<lparr>px = 30, py = 10\<rparr>,
                 \<lparr>px = 40, py = 10\<rparr>, \<lparr>px = 50, py = 10\<rparr>]"

text \<open>A canvas with two finalized paths, of five points and of one point, and a stroke in
  progress.\<close>

definition exampleCanvas :: state where
  "exampleCanvas = initialState
     \<lparr>paths := [\<lparr>points = fivePoints, color = ''#00FF00'', width = 5, isEraser = False\<rparr>,
                \<lparr>points = [\<lparr>px = 70, py = 70\<rparr>], color = ''#FF0000'', width = 2,
                  isEraser = True\<rparr>],
      currentPath := [\<lparr>px = 90, py = 90\<rparr>]\<rparr>"

text \<open>A toolbar of two buttons side by side.\<close>

definition exampleRects :: "string \<Rightarrow> DOMRect option" where
  "exampleRects = map_of
     [(''btn-pen'', \<lparr>left_r = 100, right_r = 200, top_r = 100, bottom_r = 150\<rparr>),
      (''btn-eraser'', \<lparr>left_r = 210, right_r = 310, top_r = 100, bottom_r = 150\<rparr>)]"

text \<open>Frames for the scenario of a drawing session: a pinch of ratio 0.05 whose midpoint
  maps to pixel (500, 510), a release of ratio 0.20 with the hand moved down, and two frames
  inside the hysteresis band (ratios 0.10 and 0.13).\<close>

definition pinchFrame :: "int \<Rightarrow> frame" where
  "pinchFrame t = exampleFrame t (Some (exampleHand 0.5 0.5 0.02))"

definition releaseFrame :: "int \<Rightarrow> frame" where
  "releaseFrame t = exampleFrame t (Some (exampleHand 0.5 0.55 0.08))"

definition bandFrameLow :: "int \<Rightarrow> frame" where
  "bandFrameLow t = exampleFrame t (Some (exampleHand 0.5 0.5 0.04))"

definition bandFrameHigh :: "int \<Rightarrow> frame" where
  "bandFrameHigh t = exampleFrame t (Some (exampleHand 0.5 0.5 0.052))"

text \<open>The state that five pinch frames lead to from the initial state (lemma
  \<open>drawingState_reached\<close>).\<close>

definition drawingState :: state where
  "drawingState = initialState
     \<lparr>mode := DRAWING, consecutivePinchFrames := 3,
      currentPath := [\<lparr>px = 500, py = 510\<rparr>],
      cursorPos := \<lparr>px = 500, py = 510\<rparr>, smoothedPos := Some \<lparr>px = 500, py = 510\<rparr>,
      handSize := 0.4, lastLandmarks := Some (exampleHand 0.5 0.5 0.02)\<rparr>"

text \<open>A hand at the right edge of the camera image (mirrored x = 0.03, outside the safe
  zone) and a hand in the left part of the image (mirrored x = 0.7).\<close>

definition edgeFrame :: "int \<Rightarrow> frame" where
  "edgeFrame t = exampleFrame t (Some (exampleHand 0.97 0.5 0.02))"

definition leftFrame :: "int \<Rightarrow> frame" where
  "leftFrame t = exampleFrame t (Some (exampleHand 0.3 0.5 0.02))"

text \<open>Hands of 21 landmarks on the vertical line \<open>x = 0.5\<close>, given by the \<open>y\<close>
  coordinates of landmarks 0 to 20.  All four have the wrist at 0.9, hand size 0.4 and the
  index tip at 0.3 beyond its middle joint at 0.5.  In \<open>victoryPinchHand\<close> index and middle
  finger are extended, ring and little finger are curled (tips at 0.6, nearer the wrist than
  the joints at 0.5), and the thumb tip at 0.32 is pinched to the index tip: pinch ratio
  0.05 on a hand that reads as the victory sign.  In the other three all four fingers are
  extended and the thumb tip is farther from landmark 17 than landmark 3 is, so they read as
  an open palm: \<open>palmPinchHand\<close> with the thumb tip at 0.32 (ratio 0.05), \<open>palmTouchHand\<close>
  with thumb tip and index tip together (ratio 0), \<open>palmHand\<close> with the thumb tip at 0.45
  (ratio 0.375, no pinch).\<close>

definition lineHand :: "real list \<Rightarrow> HandLandmark list" where
  "lineHand ys = map (\<lambda>y. \<lparr>px = 0.5, py = y, pz = 0\<rparr>) ys"

definition victoryPinchHand :: "HandLandmark list" where
  "victoryPinchHand = lineHand
     [0.9, 0.8, 0.7, 0.5, 0.32, 0.6, 0.5, 0.4, 0.3, 0.5, 0.5,
      0.4, 0.3, 0.6, 0.5, 0.55, 0.6, 0.6, 0.5, 0.55, 0.6]"

definition palmPinchHand :: "HandLandmark list" where
  "palmPinchHand = lineHand
     [0.9, 0.8, 0.7, 0.5, 0.32, 0.6, 0.5, 0.4, 0.3, 0.5, 0.5,
      0.4, 0.3, 0.6, 0.5, 0.4, 0.3, 0.6, 0.5, 0.4, 0.3]"

definition palmTouchHand :: "HandLandmark list" where
  "palmTouchHand = lineHand
     [0.9, 0.8, 0.7, 0.5, 0.3, 0.6, 0.5, 0.4, 0.3, 0.5, 0.5,
      0.4, 0.3, 0.6, 0.5, 0.4, 0.3, 0.6, 0.5, 0.4, 0.3]"

definition palmHand :: "HandLandmark list" where
  "palmHand = lineHand
     [0.9, 0.8, 0.7, 0.5, 0.45, 0.6, 0.5, 0.4, 0.3, 0.5, 0.5,
      0.4, 0.3, 0.6, 0.5, 0.4, 0.3, 0.6, 0.5, 0.4, 0.3]"

text \<open>The states that an open palm held for five frames and then lost leads to from the
  initial state (\<open>IDLE\<close>, menu closed, open-palm counter 5; lemma \<open>palmHoldState_reached\<close>),
  and that one more open-palm frame, which opens the menu, and a frame without a hand lead
  to from there (\<open>IDLE\<close> with the menu open; lemma \<open>menuIdleState_reached\<close>).\<close>

definition palmHoldState :: state where
  "palmHoldState = initialState
     \<lparr>consecutiveOpenFrames := 5, cursorPos := \<lparr>px = 500, py = 375\<rparr>, handSize := 0.4\<rparr>"

definition menuIdleState :: state where
  "menuIdleState = initialState
     \<lparr>isMenuOpen := True, uiVisible := True, lastGestureTime := 2198,
      cursorPos := \<lparr>px = 500, py = 375\<rparr>, handSize := 0.4\<rparr>"

section \<open>Stroke accumulator: properties\<close>

text \<open>
  Claim C9.  \<open>endStroke\<close> is idempotent: for any state, a second call right after the
  first changes nothing, so the path collection and the in-progress stroke are those of one
  call; after the first call the active stroke is empty.
\<close>

theorem endStroke_idempotent:
  "endStroke (endStroke s) = endStroke s
   \<and> paths (endStroke (endStroke s)) = paths (endStroke s)
   \<and> currentPath (endStroke (endStroke s)) = currentPath (endStroke s)
   \<and> currentPath (endStroke s) = []"
  by (simp add: endStroke_def)

lemma distance_le_iff: "0 \<le> d \<Longrightarrow> distance a b \<le> d \<longleftrightarrow> distanceSq a b \<le> d ^ 2"
proof -
  assume d: "0 \<le> d"
  have "sqrt (distanceSq a b) \<le> sqrt (d ^ 2) \<longleftrightarrow> distanceSq a b \<le> d ^ 2"
    by (rule real_sqrt_le_iff)
  with d show ?thesis by (simp add: distance_def)
qed

lemma addPoint_nonempty:
  "currentPath s \<noteq> [] \<Longrightarrow>
   addPointToStroke p s =
     (if (px (last (currentPath s)) - px p) ^ 2 + (py (last (currentPath s)) - py p) ^ 2 > 2 ^ 2
      then s\<lparr>currentPath := currentPath s @ [p]\<rparr> else s)"
  by (simp add: addPointToStroke_def MIN_DRAW_DIST_PX_def Let_def last_conv_nth)

lemma addPoint_empty: "currentPath s = [] \<Longrightarrow> addPointToStroke p s = s"
  by (simp add: addPointToStroke_def)

lemma fold_addPoint_micro:
  "currentPath s = [p0] \<Longrightarrow> \<forall>p \<in> set ps. distance p0 p \<le> 2 \<Longrightarrow>
   fold addPointToStroke ps s = s"
proof (induction ps)
  case Nil
  then show ?case by simp
next
  case (Cons p ps)
  then have "distance p0 p \<le> 2" by simp
  then have "(px p0 - px p) ^ 2 + (py p0 - py p) ^ 2 \<le> 2 ^ 2"
    by (simp add: distance_le_iff distanceSq_def)
  with Cons.prems(1) have "addPointToStroke p s = s"
    by (simp add: addPoint_nonempty)
  with Cons show ?case by simp
qed

text \<open>
  Claim C8.  On a non-empty active stroke, \<open>addPointToStroke p\<close> appends \<open>p\<close> exactly when
  the squared pixel distance from the last point of the stroke exceeds \<open>2\<^sup>2 = 4\<close>, and
  changes nothing otherwise.  Hence a stroke of one point \<open>p0\<close> stays that one point under
  any sequence of calls whose points are all within 2 px of \<open>p0\<close>.  With no active stroke
  the call changes nothing.
\<close>

theorem addPoint_filter:
  "(currentPath s \<noteq> [] \<longrightarrow>
      addPointToStroke p s =
        (if (px (last (currentPath s)) - px p) ^ 2 + (py (last (currentPath s)) - py p) ^ 2 > 2 ^ 2
         then s\<lparr>currentPath := currentPath s @ [p]\<rparr> else s))
   \<and> (currentPath s = [p0] \<and> (\<forall>q \<in> set qs. distance p0 q \<le> 2) \<longrightarrow>
        currentPath (fold addPointToStroke qs s) = [p0])
   \<and> (currentPath s = [] \<longrightarrow> addPointToStroke p s = s)"
  using addPoint_nonempty[of s p] fold_addPoint_micro[of s p0 qs] addPoint_empty[of s p]
  by auto

theorem addPoint_filter_witness:
  "currentPath (addPointToStroke \<lparr>px = 13, py = 10\<rparr>
      (initialState\<lparr>currentPath := [\<lparr>px = 10, py = 10\<rparr>]\<rparr>))
     = [\<lparr>px = 10, py = 10\<rparr>, \<lparr>px = 13, py = 10\<rparr>]
   \<and> currentPath (fold addPointToStroke [\<lparr>px = 11, py = 10\<rparr>, \<lparr>px = 10, py = 12\<rparr>]
        (initialState\<lparr>currentPath := [\<lparr>px = 10, py = 10\<rparr>]\<rparr>)) = [\<lparr>px = 10, py = 10\<rparr>]
   \<and> addPointToStroke \<lparr>px = 13, py = 10\<rparr> initialState = initialState"
proof -
  let ?s = "initialState\<lparr>currentPath := [\<lparr>px = 10, py = 10\<rparr>]\<rparr>"
  have near: "\<forall>q \<in> set [\<lparr>px = 11, py = 10\<rparr>, \<lparr>px = 10, py = 12\<rparr>].
                distance \<lparr>px = 10, py = 10\<rparr> q \<le> 2"
    by (simp add: distance_le_iff distanceSq_def)
  have e: "currentPath initialState = []" by (simp add: initialState_def)
  show ?thesis
    using addPoint_filter[of ?s "\<lparr>px = 13, py = 10\<rparr>" "\<lparr>px = 10, py = 10\<rparr>"
            "[\<lparr>px = 11, py = 10\<rparr>, \<lparr>px = 10, py = 12\<rparr>]"]
      addPoint_filter[of initialState "\<lparr>px = 13, py = 10\<rparr>" "\<lparr>px = 10, py = 10\<rparr>" "[]"]
      near e
    by simp
qed

section \<open>Dissolve: properties\<close>

lemma ceil4: "nat \<lceil>real n / 4\<rceil> = (n + 3) div 4"
  by linarith

lemma div4_step:
  assumes "i < (n::nat)"
  shows "(n - i + 3) div 4 = Suc ((n - (i + 4) + 3) div 4)"
proof (cases "i + 4 \<le> n")
  case True
  then have "n - i + 3 = (n - (i + 4) + 3) + 4" by simp
  then show ?thesis by (simp only: div_add_self2)
next
  case False
  then have z: "n - (i + 4) = 0" by simp
  from assms False have "4 \<le> n - i + 3" "n - i + 3 < 8" by simp_all
  then have "(n - i + 3) div 4 = 1"
    by (simp add: div_nat_eqI)
  with z show ?thesis by simp
qed

lemma dissolveLoop_eq:
  "dissolveLoop path rnd i (ps, k) =
     (ps @ map (\<lambda>j. newParticle path (i + 4 * j) rnd (k + 3 * j))
             [0..<(length (points path) - i + 3) div 4],
      k + 3 * ((length (points path) - i + 3) div 4))"
proof (induction path rnd i "(ps, k)" arbitrary: ps k rule: dissolveLoop.induct)
  case (1 path rnd i ps k)
  show ?case
  proof (cases "i < length (points path)")
    case True
    have m: "(length (points path) - i + 3) div 4 = Suc ((length (points path) - (i + 4) + 3) div 4)"
      by (rule div4_step[OF True])
    have "dissolveLoop path rnd i (ps, k) = dissolveLoop path rnd (i + 4) (ps @ [newParticle path i rnd k], k + 3)"
      using True by simp
    also have "\<dots> = ((ps @ [newParticle path i rnd k]) @ map (\<lambda>j. newParticle path (i + 4 + 4 * j) rnd (k + 3 + 3 * j))
             [0..<(length (points path) - (i + 4) + 3) div 4],
      k + 3 + 3 * ((length (points path) - (i + 4) + 3) div 4))"
      using 1[OF True] by simp
    finally show ?thesis
      unfolding m
      by (simp only: upt_conv_Cons[OF zero_less_Suc] map_Suc_upt[symmetric] list.map map_map o_def append_assoc append.simps)
         (simp add: algebra_simps)
  next
    case False
    then show ?thesis by simp
  qed
qed

lemma dissolveLoop_sampled:
  "\<exists>g k'. dissolveLoop path rnd 0 (ps, k) = (ps @ g, k') \<and> sampledFrom path g"
  unfolding dissolveLoop_eq sampledFrom_def ceil4
  by (simp add: newParticle_def)

lemma fold_dissolve:
  "\<exists>groups k'. fold (\<lambda>path acc. dissolveLoop path rnd 0 acc) pths (ps, k) = (ps @ concat groups, k')
      \<and> length groups = length pths
      \<and> (\<forall>i < length pths. sampledFrom (pths ! i) (groups ! i))"
proof (induction pths arbitrary: ps k)
  case Nil
  show ?case by simp
next
  case (Cons p pths)
  obtain g k1 where g: "dissolveLoop p rnd 0 (ps, k) = (ps @ g, k1)" "sampledFrom p g"
    using dissolveLoop_sampled by blast
  obtain groups k' where gs:
    "fold (\<lambda>path acc. dissolveLoop path rnd 0 acc) pths (ps @ g, k1) = ((ps @ g) @ concat groups, k')"
    "length groups = length pths" "\<forall>i < length pths. sampledFrom (pths ! i) (groups ! i)"
    using Cons.IH[of "ps @ g" k1] by blast
  have "\<forall>i < length (p # pths). sampledFrom ((p # pths) ! i) ((g # groups) ! i)"
    using g(2) gs(3) by (simp add: nth_Cons split: nat.split)
  moreover have "fold (\<lambda>path acc. dissolveLoop path rnd 0 acc) (p # pths) (ps, k) = (ps @ concat (g # groups), k')"
    using g(1) gs(1) by simp
  moreover have "length (g # groups) = length (p # pths)" using gs(2) by simp
  ultimately show ?case by blast
qed

text \<open>
  Claim C6.  On a non-empty path collection \<open>triggerDissolve\<close> appends, for each
  finalized path in order, one group of particles: \<open>\<lceil>n/4\<rceil>\<close> particles for a path of
  \<open>n\<close> points, the \<open>j\<close>-th of them at point \<open>4 * j\<close> of the path and with life 1.  It
  then empties the path collection and the in-progress stroke.  On an empty path collection
  it returns the state unchanged.
\<close>

theorem dissolve_spec:
  "(paths s \<noteq> [] \<longrightarrow>
      (\<exists>groups. particles (triggerDissolve rnd s) = particles s @ concat groups
         \<and> length groups = length (paths s)
         \<and> (\<forall>i < length (paths s).
               length (groups ! i) = nat \<lceil>real (length (points (paths s ! i))) / 4\<rceil>
               \<and> (\<forall>j < length (groups ! i).
                     x_p (groups ! i ! j) = px (points (paths s ! i) ! (4 * j))
                     \<and> y_p (groups ! i ! j) = py (points (paths s ! i) ! (4 * j))
                     \<and> life (groups ! i ! j) = 1)))
      \<and> paths (triggerDissolve rnd s) = []
      \<and> currentPath (triggerDissolve rnd s) = [])
   \<and> (paths s = [] \<longrightarrow> triggerDissolve rnd s = s)"
proof -
  obtain groups k' where gs:
    "fold (\<lambda>path acc. dissolveLoop path rnd 0 acc) (paths s) (particles s, 0) = (particles s @ concat groups, k')"
    "length groups = length (paths s)" "\<forall>i < length (paths s). sampledFrom (paths s ! i) (groups ! i)"
    using fold_dissolve[of rnd "paths s" "particles s" 0] by blast
  have "paths s \<noteq> [] \<Longrightarrow> particles (triggerDissolve rnd s) = particles s @ concat groups"
    using gs(1) by (simp add: triggerDissolve_def)
  moreover have "paths (triggerDissolve rnd s) = []" "currentPath (triggerDissolve rnd s) = [] \<or> paths s = []"
    by (simp_all add: triggerDissolve_def)
  moreover have "paths s = [] \<Longrightarrow> triggerDissolve rnd s = s"
    by (simp add: triggerDissolve_def)
  ultimately show ?thesis
    using gs(2,3) unfolding sampledFrom_def by blast
qed


theorem dissolve_spec_witness:
  "length (particles (triggerDissolve (\<lambda>k. 1 / 2) exampleCanvas)) = 3
   \<and> paths (triggerDissolve (\<lambda>k. 1 / 2) exampleCanvas) = []
   \<and> currentPath (triggerDissolve (\<lambda>k. 1 / 2) exampleCanvas) = []
   \<and> triggerDissolve (\<lambda>k. 1 / 2) initialState = initialState"
proof -
  let ?r = "\<lambda>k::nat. (1::real) / 2"
  have ne: "paths exampleCanvas \<noteq> []" by (simp add: exampleCanvas_def)
  have len: "length (paths exampleCanvas) = 2" by (simp add: exampleCanvas_def)
  from dissolve_spec[of exampleCanvas ?r] ne len obtain groups where g:
    "particles (triggerDissolve ?r exampleCanvas) = particles exampleCanvas @ concat groups"
    "length groups = 2"
    "\<forall>i < 2. length (groups ! i) = nat \<lceil>real (length (points (paths exampleCanvas ! i))) / 4\<rceil>"
    and rest: "paths (triggerDissolve ?r exampleCanvas) = []"
       "currentPath (triggerDissolve ?r exampleCanvas) = []"
    by auto
  from g(2) obtain g0 g1 where gg: "groups = [g0, g1]"
    by (auto simp: length_Suc_conv numeral_2_eq_2)
  from g(3) have "length (groups ! 0) = 2" "length (groups ! 1) = 1"
    by (simp_all add: exampleCanvas_def fivePoints_def ceil4)
  with gg have "length (concat groups) = 3" by simp
  with g(1) have "length (particles (triggerDissolve ?r exampleCanvas)) = 3"
    by (simp add: exampleCanvas_def initialState_def)
  moreover have "triggerDissolve ?r initialState = initialState"
    using dissolve_spec[of initialState ?r] by (simp add: initialState_def)
  ultimately show ?thesis using rest by simp
qed

section \<open>Menu dwell selector: properties\<close>

text \<open>A hit is an element of the list whose rectangle contains the point.\<close>

lemma hitTest_Some:
  "hitTest rects x y es = Some e \<Longrightarrow>
   e \<in> set es \<and> (\<exists>r. rects e = Some r \<and> left_r r \<le> x \<and> x \<le> right_r r
                     \<and> top_r r \<le> y \<and> y \<le> bottom_r r)"
  by (induction es) (auto split: option.splits if_splits)

lemma handleUI_cursor [simp]: "cursorPos (handleUIInteraction rects s) = cursorPos s"
  by (simp add: handleUIInteraction_def triggerClick_def Let_def split: option.splits)

lemma handleUI_change:
  "hitTest rects (px (cursorPos s)) (py (cursorPos s)) ids = Some e \<Longrightarrow> hoveredId s \<noteq> Some e \<Longrightarrow>
   handleUIInteraction rects s = s\<lparr>hoveredId := Some e, selectionProgress := 0\<rparr>"
  by (simp add: handleUIInteraction_def)

lemma handleUI_none:
  "hitTest rects (px (cursorPos s)) (py (cursorPos s)) ids = None \<Longrightarrow>
   handleUIInteraction rects s = s\<lparr>hoveredId := None, selectionProgress := 0\<rparr>"
  by (simp add: handleUIInteraction_def)

lemma handleUI_accumulate:
  "hitTest rects (px (cursorPos s)) (py (cursorPos s)) ids = Some e \<Longrightarrow> hoveredId s = Some e \<Longrightarrow>
   selectionProgress s + FRAME_INTERVAL < DWELL_TIME_MS \<Longrightarrow>
   handleUIInteraction rects s = s\<lparr>selectionProgress := selectionProgress s + FRAME_INTERVAL\<rparr>"
  by (simp add: handleUIInteraction_def Let_def)

lemma handleUI_fire:
  "hitTest rects (px (cursorPos s)) (py (cursorPos s)) ids = Some e \<Longrightarrow> hoveredId s = Some e \<Longrightarrow>
   selectionProgress s + FRAME_INTERVAL \<ge> DWELL_TIME_MS \<Longrightarrow>
   handleUIInteraction rects s =
     (triggerClick e (s\<lparr>selectionProgress := selectionProgress s + FRAME_INTERVAL\<rparr>))
       \<lparr>selectionProgress := 0, hoveredId := None\<rparr>"
  by (simp add: handleUIInteraction_def Let_def)

lemma triggerClick_fields [simp]:
  "clicked (triggerClick e s) = clicked s @ [e]"
  "cursorPos (triggerClick e s) = cursorPos s"
  by (simp_all add: triggerClick_def Let_def split: option.splits)

lemma dwellStep_accumulate:
  "hitTest rects (px c) (py c) ids = Some e \<Longrightarrow> hoveredId s = Some e \<Longrightarrow>
   selectionProgress s + FRAME_INTERVAL < DWELL_TIME_MS \<Longrightarrow>
   dwellStep rects c s = s\<lparr>cursorPos := c, selectionProgress := selectionProgress s + FRAME_INTERVAL\<rparr>"
  using handleUI_accumulate[of rects "s\<lparr>cursorPos := c\<rparr>" e] by (simp add: dwellStep_def)

lemma dwellStep_fire:
  "hitTest rects (px c) (py c) ids = Some e \<Longrightarrow> hoveredId s = Some e \<Longrightarrow>
   selectionProgress s + FRAME_INTERVAL \<ge> DWELL_TIME_MS \<Longrightarrow>
   clicked (dwellStep rects c s) = clicked s @ [e] \<and> hoveredId (dwellStep rects c s) = None
   \<and> selectionProgress (dwellStep rects c s) = 0"
  using handleUI_fire[of rects "s\<lparr>cursorPos := c\<rparr>" e] by (simp add: dwellStep_def)

lemma hold_accumulate:
  assumes "\<forall>c \<in> set cs. hitTest rects (px c) (py c) ids = Some e"
    and "hoveredId s = Some e" "selectionProgress s = 0" "length cs < 18"
  shows "clicked (fold (dwellStep rects) cs s) = clicked s
       \<and> hoveredId (fold (dwellStep rects) cs s) = Some e
       \<and> selectionProgress (fold (dwellStep rects) cs s) = real (length cs) * FRAME_INTERVAL"
  using assms
proof (induction cs rule: rev_induct)
  case Nil
  then show ?case by simp
next
  case (snoc c cs)
  let ?t = "fold (dwellStep rects) cs s"
  from snoc have ih: "clicked ?t = clicked s" "hoveredId ?t = Some e"
    "selectionProgress ?t = real (length cs) * FRAME_INTERVAL" by simp_all
  from snoc.prems have hit: "hitTest rects (px c) (py c) ids = Some e" by simp
  from snoc.prems have "real (length cs) + 1 < 18" by simp
  then have "(real (length cs) + 1) * (100 / 3) < 18 * (100 / 3)" by simp
  then have lt: "selectionProgress (?t\<lparr>cursorPos := c\<rparr>) + FRAME_INTERVAL < DWELL_TIME_MS"
    using ih(3) by (simp add: FRAME_INTERVAL_def TARGET_FPS_def DWELL_TIME_MS_def algebra_simps)
  have "dwellStep rects c ?t = ?t\<lparr>cursorPos := c, selectionProgress := selectionProgress ?t + FRAME_INTERVAL\<rparr>"
    using dwellStep_accumulate[of rects c e ?t] hit ih(2) lt by simp
  then show ?case using ih by (simp add: algebra_simps)
qed


lemma hold_fire:
  assumes "\<forall>c \<in> set cs. hitTest rects (px c) (py c) ids = Some e"
    and "hoveredId s = Some e" "selectionProgress s = 0" "length cs = 18"
  shows "clicked (fold (dwellStep rects) cs s) = clicked s @ [e]
       \<and> hoveredId (fold (dwellStep rects) cs s) = None
       \<and> selectionProgress (fold (dwellStep rects) cs s) = 0"
proof -
  from assms(4) obtain c cs' where cs: "cs = cs' @ [c]" "length cs' = 17"
    by (cases cs rule: rev_cases) auto
  let ?t = "fold (dwellStep rects) cs' s"
  have acc: "clicked ?t = clicked s" "hoveredId ?t = Some e"
    "selectionProgress ?t = real (length cs') * FRAME_INTERVAL"
    using hold_accumulate[of cs' rects e s] assms(1-3) cs by simp_all
  have ge: "selectionProgress ?t + FRAME_INTERVAL \<ge> DWELL_TIME_MS"
    using acc(3) cs(2) by (simp add: FRAME_INTERVAL_def TARGET_FPS_def DWELL_TIME_MS_def)
  have hit: "hitTest rects (px c) (py c) ids = Some e" using assms(1) cs(1) by simp
  show ?thesis
    using dwellStep_fire[OF hit acc(2) ge] acc(1) cs(1) by simp
qed

text \<open>
  Claim C5.  Let the hovered element be \<open>e\<close> with progress 0 (the state that the first
  frame on \<open>e\<close> leaves), and let the cursor positions \<open>cs\<close> of the following frames all
  hit \<open>e\<close>.  Fewer than 18 such frames fire nothing and accumulate one frame interval
  each; 18 frames are exactly the dwell time of 600 ms, and the 18th fires exactly one
  selection event for \<open>e\<close> and resets progress and hovered id.  A frame whose hit differs
  from the hovered id sets the hovered id to the hit and the progress to 0; a frame with no
  hit clears both.
\<close>

theorem dwell_selection:
  "((\<forall>c \<in> set cs. hitTest rects (px c) (py c) ids = Some e)
      \<and> hoveredId s = Some e \<and> selectionProgress s = 0 \<longrightarrow>
      (length cs < 18 \<longrightarrow>
         clicked (fold (dwellStep rects) cs s) = clicked s
         \<and> hoveredId (fold (dwellStep rects) cs s) = Some e
         \<and> selectionProgress (fold (dwellStep rects) cs s) = real (length cs) * FRAME_INTERVAL)
      \<and> (length cs = 18 \<longrightarrow>
         real (length cs) * FRAME_INTERVAL = DWELL_TIME_MS
         \<and> clicked (fold (dwellStep rects) cs s) = clicked s @ [e]
         \<and> hoveredId (fold (dwellStep rects) cs s) = None
         \<and> selectionProgress (fold (dwellStep rects) cs s) = 0))
   \<and> (hitTest rects (px (cursorPos s)) (py (cursorPos s)) ids = Some e \<and> hoveredId s \<noteq> Some e \<longrightarrow>
        handleUIInteraction rects s = s\<lparr>hoveredId := Some e, selectionProgress := 0\<rparr>)
   \<and> (hitTest rects (px (cursorPos s)) (py (cursorPos s)) ids = None \<longrightarrow>
        handleUIInteraction rects s = s\<lparr>hoveredId := None, selectionProgress := 0\<rparr>)"
proof -
  have "18 * FRAME_INTERVAL = DWELL_TIME_MS"
    by (simp add: FRAME_INTERVAL_def TARGET_FPS_def DWELL_TIME_MS_def)
  then show ?thesis
    using hold_accumulate[of cs rects e s] hold_fire[of cs rects e s]
      handleUI_change[of rects s e] handleUI_none[of rects s]
    by simp
qed

theorem dwell_selection_witness:
  "clicked (fold (dwellStep exampleRects) (replicate 18 \<lparr>px = 250, py = 120\<rparr>)
      (initialState\<lparr>hoveredId := Some ''btn-eraser''\<rparr>)) = [''btn-eraser'']
   \<and> hoveredId (fold (dwellStep exampleRects) (replicate 18 \<lparr>px = 250, py = 120\<rparr>)
      (initialState\<lparr>hoveredId := Some ''btn-eraser''\<rparr>)) = None
   \<and> selectionProgress (fold (dwellStep exampleRects) (replicate 18 \<lparr>px = 250, py = 120\<rparr>)
      (initialState\<lparr>hoveredId := Some ''btn-eraser''\<rparr>)) = 0
   \<and> selectionProgress (fold (dwellStep exampleRects) (replicate 3 \<lparr>px = 250, py = 120\<rparr>)
      (initialState\<lparr>hoveredId := Some ''btn-eraser''\<rparr>)) = 100
   \<and> clicked (fold (dwellStep exampleRects) (replicate 3 \<lparr>px = 250, py = 120\<rparr>)
      (initialState\<lparr>hoveredId := Some ''btn-eraser''\<rparr>)) = []
   \<and> handleUIInteraction exampleRects (initialState\<lparr>cursorPos := \<lparr>px = 250, py = 120\<rparr>\<rparr>)
       = initialState\<lparr>cursorPos := \<lparr>px = 250, py = 120\<rparr>, hoveredId := Some ''btn-eraser'',
                       selectionProgress := 0\<rparr>
   \<and> handleUIInteraction exampleRects initialState
       = initialState\<lparr>hoveredId := None, selectionProgress := 0\<rparr>"
proof -
  let ?c = "\<lparr>px = 250, py = 120\<rparr> :: Point"
  let ?s = "initialState\<lparr>hoveredId := Some ''btn-eraser''\<rparr>"
  have hit: "hitTest exampleRects 250 120 ids = Some ''btn-eraser''"
    by (simp add: exampleRects_def ids_def)
  have nohit: "hitTest exampleRects 0 0 ids = None"
    by (simp add: exampleRects_def ids_def)
  have a: "clicked (fold (dwellStep exampleRects) (replicate 18 ?c) ?s) = [''btn-eraser'']
      \<and> hoveredId (fold (dwellStep exampleRects) (replicate 18 ?c) ?s) = None
      \<and> selectionProgress (fold (dwellStep exampleRects) (replicate 18 ?c) ?s) = 0"
    using dwell_selection[of "replicate 18 ?c" exampleRects "''btn-eraser''" ?s] hit
    by (simp add: initialState_def)
  have b: "selectionProgress (fold (dwellStep exampleRects) (replicate 3 ?c) ?s) = 100
      \<and> clicked (fold (dwellStep exampleRects) (replicate 3 ?c) ?s) = []"
    using dwell_selection[of "replicate 3 ?c" exampleRects "''btn-eraser''" ?s] hit
    by (simp add: initialState_def FRAME_INTERVAL_def TARGET_FPS_def)
  have c: "handleUIInteraction exampleRects (initialState\<lparr>cursorPos := ?c\<rparr>)
       = initialState\<lparr>cursorPos := ?c, hoveredId := Some ''btn-eraser'', selectionProgress := 0\<rparr>"
    using dwell_selection[of "[]" exampleRects "''btn-eraser''" "initialState\<lparr>cursorPos := ?c\<rparr>"] hit
    by (simp add: initialState_def)
  have d: "handleUIInteraction exampleRects initialState
       = initialState\<lparr>hoveredId := None, selectionProgress := 0\<rparr>"
    using dwell_selection[of "[]" exampleRects "''btn-eraser''" initialState] nohit
    by (simp add: initialState_def)
  from a b c d show ?thesis by simp
qed

section \<open>The per-frame update: one frame at a time\<close>

lemma smoothing_fields [simp]:
  "mode (smoothing a b s) = mode s"
  "isMenuOpen (smoothing a b s) = isMenuOpen s"
  "currentPath (smoothing a b s) = currentPath s"
  "paths (smoothing a b s) = paths s"
  "consecutivePinchFrames (smoothing a b s) = consecutivePinchFrames s"
  "consecutiveOpenFrames (smoothing a b s) = consecutiveOpenFrames s"
  "lastGestureTime (smoothing a b s) = lastGestureTime s"
  "tool (smoothing a b s) = tool s"
  "color_s (smoothing a b s) = color_s s"
  "size_s (smoothing a b s) = size_s s"
  "clicked (smoothing a b s) = clicked s"
  "hoveredId (smoothing a b s) = hoveredId s"
  "selectionProgress (smoothing a b s) = selectionProgress s"
  "smoothedPos (smoothing a b s) = Some (cursorPos (smoothing a b s))"
  by (simp_all add: smoothing_def Let_def)

lemma smoothing_cursor_cong:
  "smoothedPos s = smoothedPos t \<Longrightarrow> cursorPos (smoothing a b s) = cursorPos (smoothing a b t)"
  by (simp add: smoothing_def Let_def)

lemma tracked_fields [simp]:
  "mode (tracked f hs p s) = mode s"
  "isMenuOpen (tracked f hs p s) = isMenuOpen s"
  "currentPath (tracked f hs p s) = currentPath s"
  "paths (tracked f hs p s) = paths s"
  "consecutivePinchFrames (tracked f hs p s) = consecutivePinchFrames s"
  "consecutiveOpenFrames (tracked f hs p s) = consecutiveOpenFrames s"
  "lastGestureTime (tracked f hs p s) = lastGestureTime s"
  "tool (tracked f hs p s) = tool s"
  "color_s (tracked f hs p s) = color_s s"
  "size_s (tracked f hs p s) = size_s s"
  "clicked (tracked f hs p s) = clicked s"
  "hoveredId (tracked f hs p s) = hoveredId s"
  "selectionProgress (tracked f hs p s) = selectionProgress s"
  "smoothedPos (tracked f hs p s) = Some (cursorPos (tracked f hs p s))"
  by (simp_all add: tracked_def prepared_def)

lemma tracked_cursor [simp]:
  "cursorPos (tracked f hs p s) = cursorPos (smoothing (px p * f_width f) (py p * f_height f) s)"
  by (simp add: tracked_def prepared_def smoothing_def Let_def)

lemma frame_unpack:
  assumes "framePinchRatio f = Some r" "frameRawPoint menu f = Some p"
  obtains lm hs rp where "f_landmarks f = Some lm" "getHandSize lm = Some hs"
    "getPinchRatio lm hs = Some r"
    "(if menu then map_option (\<lambda>l. \<lparr>px = px l, py = py l\<rparr>) (landmarkAt lm 8)
      else getPinchMidpoint lm) = Some rp"
    "p = \<lparr>px = 1 - px rp, py = py rp\<rparr>"
  using assms
  by (auto simp: framePinchRatio_def frameRawPoint_def bind_eq_Some_conv)

lemma processFrame_in_zone:
  assumes "framePinchRatio f = Some r" "frameRawPoint (isMenuOpen s) f = Some p" "isInSafeZone p"
  shows "\<exists>lm hs. f_landmarks f = Some lm \<and> processFrame f s =
     (if mode s \<noteq> DRAWING
      then do { s2 \<leftarrow> menuGesture (f_now f) lm (tracked f hs p s);
                victory \<leftarrow> detectVictory lm;
                if victory \<and> \<not> isMenuOpen s2
                then Some (triggerDissolve (f_rnd f) s2)
                else modeLogic (f_rects f) lm r s2 }
      else modeLogic (f_rects f) lm r (tracked f hs p s))"
proof -
  from assms(1,2) obtain lm hs rp where u: "f_landmarks f = Some lm" "getHandSize lm = Some hs"
    "getPinchRatio lm hs = Some r"
    "(if isMenuOpen s then map_option (\<lambda>l. \<lparr>px = px l, py = py l\<rparr>) (landmarkAt lm 8)
      else getPinchMidpoint lm) = Some rp"
    "p = \<lparr>px = 1 - px rp, py = py rp\<rparr>"
    by (rule frame_unpack)
  let ?s0 = "s\<lparr>lastLandmarks := f_landmarks f\<rparr>"
  have cs: "cursorSource lm (?s0\<lparr>particles := physics (f_height f) (particles ?s0), handSize := hs\<rparr>) = Some rp"
    using u(4) by (simp add: cursorSource_def)
  have "processFrame f s =
     (if mode s \<noteq> DRAWING
      then do { s2 \<leftarrow> menuGesture (f_now f) lm (tracked f hs p s);
                victory \<leftarrow> detectVictory lm;
                if victory \<and> \<not> isMenuOpen s2
                then Some (triggerDissolve (f_rnd f) s2)
                else modeLogic (f_rects f) lm r s2 }
      else modeLogic (f_rects f) lm r (tracked f hs p s))"
    using u(1,2,3,5) cs assms(3)
    by (simp add: processFrame_def update_def Let_def tracked_def prepared_def)
  with u(1) show ?thesis by blast
qed

lemma processFrame_out_of_zone:
  assumes "framePinchRatio f = Some r" "frameRawPoint (isMenuOpen s) f = Some p" "\<not> isInSafeZone p"
  shows "\<exists>hs. processFrame f s =
     Some ((if mode s = DRAWING then endStroke (prepared (f_height f) hs (s\<lparr>lastLandmarks := f_landmarks f\<rparr>))
            else prepared (f_height f) hs (s\<lparr>lastLandmarks := f_landmarks f\<rparr>))\<lparr>mode := IDLE\<rparr>)"
proof -
  from assms(1,2) obtain lm hs rp where u: "f_landmarks f = Some lm" "getHandSize lm = Some hs"
    "getPinchRatio lm hs = Some r"
    "(if isMenuOpen s then map_option (\<lambda>l. \<lparr>px = px l, py = py l\<rparr>) (landmarkAt lm 8)
      else getPinchMidpoint lm) = Some rp"
    "p = \<lparr>px = 1 - px rp, py = py rp\<rparr>"
    by (rule frame_unpack)
  let ?s0 = "s\<lparr>lastLandmarks := f_landmarks f\<rparr>"
  have cs: "cursorSource lm (?s0\<lparr>particles := physics (f_height f) (particles ?s0), handSize := hs\<rparr>) = Some rp"
    using u(4) by (simp add: cursorSource_def)
  have "processFrame f s =
     Some ((if mode s = DRAWING then endStroke (prepared (f_height f) hs ?s0)
            else prepared (f_height f) hs ?s0)\<lparr>mode := IDLE\<rparr>)"
    using u(1,2,3,5) cs assms(3)
    by (simp add: processFrame_def update_def Let_def prepared_def)
  then show ?thesis by blast
qed

lemma processFrame_no_landmarks:
  "f_landmarks f = None \<Longrightarrow>
   processFrame f s =
     Some ((if mode s = DRAWING
            then endStroke (s\<lparr>lastLandmarks := None, particles := physics (f_height f) (particles s)\<rparr>)
            else s\<lparr>lastLandmarks := None, particles := physics (f_height f) (particles s)\<rparr>)
           \<lparr>mode := IDLE, smoothedPos := None\<rparr>)"
  by (simp add: processFrame_def update_def Let_def)

lemma drawing_release_step:
  assumes "mode s = DRAWING" "\<not> isMenuOpen s"
    and "framePinchRatio f = Some r" "js_gt r PINCH_END_THRESHOLD"
    and "frameRawPoint False f = Some p" "isInSafeZone p"
    and "0 < consecutivePinchFrames s"
  shows "\<exists>s'. processFrame f s = Some s' \<and> consecutivePinchFrames s' = consecutivePinchFrames s - 1
           \<and> mode s' = DRAWING \<and> currentPath s' = currentPath s \<and> paths s' = paths s
           \<and> \<not> isMenuOpen s'
           \<and> cursorPos s' = cursorPos (smoothing (px p * f_width f) (py p * f_height f) s)"
proof -
  from processFrame_in_zone[of f r s p] assms obtain lm hs where
    "processFrame f s = modeLogic (f_rects f) lm r (tracked f hs p s)"
    by auto
  then show ?thesis using assms
    by (simp add: modeLogic_def Let_def)
qed

lemma drawing_exit_step:
  assumes "mode s = DRAWING" "\<not> isMenuOpen s"
    and "framePinchRatio f = Some r" "js_gt r PINCH_END_THRESHOLD"
    and "frameRawPoint False f = Some p" "isInSafeZone p"
    and "consecutivePinchFrames s \<le> 0"
  shows "\<exists>s'. processFrame f s = Some s' \<and> consecutivePinchFrames s' = consecutivePinchFrames s - 1
           \<and> mode s' = HOVER \<and> currentPath s' = currentPath (endStroke s) \<and> paths s' = paths (endStroke s)
           \<and> \<not> isMenuOpen s'"
proof -
  from processFrame_in_zone[of f r s p] assms obtain lm hs where
    "processFrame f s = modeLogic (f_rects f) lm r (tracked f hs p s)"
    by auto
  then show ?thesis using assms
    by (simp add: modeLogic_def Let_def endStroke_def)
qed

lemma drawing_hold_step:
  assumes "mode s = DRAWING" "\<not> isMenuOpen s"
    and "framePinchRatio f = Some r" "\<not> js_gt r PINCH_END_THRESHOLD"
    and "frameRawPoint False f = Some p" "isInSafeZone p"
  shows "\<exists>s'. processFrame f s = Some s' \<and> consecutivePinchFrames s' = PINCH_DEBOUNCE_FRAMES
           \<and> mode s' = DRAWING \<and> paths s' = paths s \<and> \<not> isMenuOpen s'
           \<and> cursorPos s' = cursorPos (smoothing (px p * f_width f) (py p * f_height f) s)
           \<and> currentPath s' = currentPath (addPointToStroke (cursorPos s') s)"
proof -
  from processFrame_in_zone[of f r s p] assms obtain lm hs where
    "processFrame f s = modeLogic (f_rects f) lm r (tracked f hs p s)"
    by auto
  then show ?thesis using assms
    by (simp add: modeLogic_def Let_def addPointToStroke_def)
qed

lemma landmarkAt_full: "length lm = 21 \<Longrightarrow> i < 21 \<Longrightarrow> landmarkAt lm i = Some (lm ! i)"
  by (simp add: landmarkAt_def)

lemma isFingerExtended_total:
  "length lm = 21 \<Longrightarrow> a < 21 \<Longrightarrow> b < 21 \<Longrightarrow> \<exists>v. isFingerExtended lm a b = Some v"
  by (simp add: isFingerExtended_def landmarkAt_full)

lemma detectVictory_total: "length lm = 21 \<Longrightarrow> \<exists>v. detectVictory lm = Some v"
  by (simp add: detectVictory_def isFingerExtended_def landmarkAt_full)

lemma detectOpenPalm_total: "length lm = 21 \<Longrightarrow> \<exists>v. detectOpenPalm lm = Some v"
  by (auto simp: detectOpenPalm_def isFingerExtended_def landmarkAt_full)

lemma pinchRatio_total:
  "length lm = 21 \<Longrightarrow> \<exists>hs r. getHandSize lm = Some hs \<and> getPinchRatio lm hs = Some r"
  by (simp add: getHandSize_def getPinchRatio_def landmarkAt_full)

lemma menuGesture_total:
  "detectOpenPalm lm = Some v \<Longrightarrow> \<exists>s2. menuGesture now lm s = Some s2"
  by (simp add: menuGesture_def Let_def)

lemma modeLogic_total:
  "isFingerExtended lm 8 6 = Some v \<Longrightarrow> \<exists>s'. modeLogic rects lm r s = Some s'"
  by (simp add: modeLogic_def Let_def)

lemma menuGesture_quiet:
  assumes "detectOpenPalm lm = Some b"
    and "\<not> (now - lastGestureTime s > 1000 \<and> b \<and> consecutiveOpenFrames s + 1 > 5)"
  shows "\<exists>c. menuGesture now lm s = Some (s\<lparr>consecutiveOpenFrames := c\<rparr>)"
proof (cases "now - lastGestureTime s > 1000")
  case False
  then have "menuGesture now lm s = Some (s\<lparr>consecutiveOpenFrames := consecutiveOpenFrames s\<rparr>)"
    by (simp add: menuGesture_def)
  then show ?thesis by blast
next
  case True
  note late = this
  show ?thesis
  proof (cases b)
    case True
    with late assms
    have "menuGesture now lm s = Some (s\<lparr>consecutiveOpenFrames := consecutiveOpenFrames s + 1\<rparr>)"
      by (simp add: menuGesture_def Let_def)
    then show ?thesis by blast
  next
    case False
    with late assms
    have "menuGesture now lm s = Some (s\<lparr>consecutiveOpenFrames := 0\<rparr>)"
      by (simp add: menuGesture_def Let_def)
    then show ?thesis by blast
  qed
qed

lemma quiet_frame_step:
  assumes "mode s \<noteq> DRAWING" "\<not> isMenuOpen s"
    and "framePinchRatio f = Some r"
    and "f_landmarks f = Some lm" "length lm = 21" "\<not> firesGlobalGesture f s"
    and "frameRawPoint False f = Some p" "isInSafeZone p"
  shows "\<exists>s'. processFrame f s = Some s' \<and> \<not> isMenuOpen s' \<and> paths s' = paths s
           \<and> cursorPos s' = cursorPos (smoothing (px p * f_width f) (py p * f_height f) s)
           \<and> smoothedPos s' = Some (cursorPos s')
           \<and> (if js_lt r PINCH_START_THRESHOLD
               then consecutivePinchFrames s' = consecutivePinchFrames s + 1
                    \<and> (if consecutivePinchFrames s + 1 > PINCH_DEBOUNCE_FRAMES
                        then mode s' = DRAWING \<and> currentPath s' = [cursorPos s']
                        else mode s' = mode s \<and> currentPath s' = currentPath s)
               else consecutivePinchFrames s' = 0 \<and> mode s' = HOVER \<and> currentPath s' = currentPath s)"
proof -
  from processFrame_in_zone[of f r s p] assms obtain hs where
    pf: "processFrame f s = do { s2 \<leftarrow> menuGesture (f_now f) lm (tracked f hs p s);
                victory \<leftarrow> detectVictory lm;
                if victory \<and> \<not> isMenuOpen s2
                then Some (triggerDissolve (f_rnd f) s2)
                else modeLogic (f_rects f) lm r s2 }"
    by auto
  from detectOpenPalm_total[OF assms(5)] obtain b where b: "detectOpenPalm lm = Some b" by blast
  from detectVictory_total[OF assms(5)] obtain v where v: "detectVictory lm = Some v" by blast
  from assms(4,6) b v have nv: "detectVictory lm = Some False"
    and q: "\<not> (f_now f - lastGestureTime (tracked f hs p s) > 1000 \<and> b
             \<and> consecutiveOpenFrames (tracked f hs p s) + 1 > 5)"
    by (auto simp: firesGlobalGesture_def)
  from menuGesture_quiet[OF b q] obtain c where
    mg: "menuGesture (f_now f) lm (tracked f hs p s)
           = Some ((tracked f hs p s)\<lparr>consecutiveOpenFrames := c\<rparr>)"
    by blast
  show ?thesis
    unfolding pf mg using assms(1,2) nv
    by (simp add: modeLogic_def Let_def startStroke_def)
qed

subsection \<open>The example frames\<close>

lemma distance_same_x: "px a = px b \<Longrightarrow> distance a b = \<bar>py a - py b\<bar>"
  by (simp add: distance_def distanceSq_def)

lemma exampleHand_at:
  "landmarkAt (exampleHand cx cy gap) 0 = Some \<lparr>px = cx, py = cy + 0.4, pz = 0\<rparr>"
  "landmarkAt (exampleHand cx cy gap) 4 = Some \<lparr>px = cx, py = cy + gap, pz = 0\<rparr>"
  "landmarkAt (exampleHand cx cy gap) 6 = Some \<lparr>px = cx, py = cy, pz = 0\<rparr>"
  "landmarkAt (exampleHand cx cy gap) 8 = Some \<lparr>px = cx, py = cy, pz = 0\<rparr>"
  "landmarkAt (exampleHand cx cy gap) 9 = Some \<lparr>px = cx, py = cy, pz = 0\<rparr>"
  "landmarkAt (exampleHand cx cy gap) 10 = Some \<lparr>px = cx, py = cy, pz = 0\<rparr>"
  "landmarkAt (exampleHand cx cy gap) 12 = Some \<lparr>px = cx, py = cy, pz = 0\<rparr>"
  "landmarkAt (exampleHand cx cy gap) 14 = Some \<lparr>px = cx, py = cy, pz = 0\<rparr>"
  "landmarkAt (exampleHand cx cy gap) 16 = Some \<lparr>px = cx, py = cy, pz = 0\<rparr>"
  "landmarkAt (exampleHand cx cy gap) 18 = Some \<lparr>px = cx, py = cy, pz = 0\<rparr>"
  "landmarkAt (exampleHand cx cy gap) 20 = Some \<lparr>px = cx, py = cy, pz = 0\<rparr>"
  by (simp_all add: landmarkAt_def exampleHand_def Let_def)

lemma exampleFrame_ratio:
  "0 \<le> gap \<Longrightarrow>
   framePinchRatio (exampleFrame t (Some (exampleHand cx cy gap))) = Some (Finite (gap / 0.4))"
  by (simp add: framePinchRatio_def exampleFrame_def getHandSize_def getPinchRatio_def
      exampleHand_at distance_same_x jsdiv_def)

lemma exampleFrame_raw:
  "frameRawPoint False (exampleFrame t (Some (exampleHand cx cy gap)))
     = Some \<lparr>px = 1 - cx, py = cy + gap / 2\<rparr>"
  by (simp add: frameRawPoint_def exampleFrame_def getPinchMidpoint_def exampleHand_at)

lemma exampleFrame_quiet:
  "\<not> firesGlobalGesture (exampleFrame t (Some (exampleHand cx cy gap))) s"
  by (simp add: firesGlobalGesture_def exampleFrame_def detectOpenPalm_def detectVictory_def
      isFingerExtended_def exampleHand_at)

lemma lineHand_at:
  "landmarkAt (lineHand ys) i
     = (if i < length ys then Some \<lparr>px = 0.5, py = ys ! i, pz = 0\<rparr> else None)"
  by (simp add: landmarkAt_def lineHand_def)

lemma palmPinch_facts:
  "f_landmarks (exampleFrame t (Some palmPinchHand)) = Some palmPinchHand"
  "length palmPinchHand = 21"
  "frameInZone False (exampleFrame t (Some palmPinchHand))"
  "framePinchRatio (exampleFrame t (Some palmPinchHand)) = Some (Finite 0.05)"
  "detectOpenPalm palmPinchHand = Some True"
  "detectVictory palmPinchHand = Some False"
  by (simp_all add: exampleFrame_def palmPinchHand_def lineHand_def frameInZone_def
      frameRawPoint_def framePinchRatio_def getPinchMidpoint_def getHandSize_def getPinchRatio_def
      landmarkAt_def distance_same_x jsdiv_def isInSafeZone_def detectOpenPalm_def
      detectVictory_def isFingerExtended_def distanceSq_def power2_eq_square)

lemma victoryPinch_facts:
  "frameInZone False (exampleFrame t (Some victoryPinchHand))"
  "framePinchRatio (exampleFrame t (Some victoryPinchHand)) = Some (Finite 0.05)"
  "detectVictory victoryPinchHand = Some True"
  by (simp_all add: exampleFrame_def victoryPinchHand_def lineHand_def frameInZone_def
      frameRawPoint_def framePinchRatio_def getPinchMidpoint_def getHandSize_def getPinchRatio_def
      landmarkAt_def distance_same_x jsdiv_def isInSafeZone_def
      detectVictory_def isFingerExtended_def distanceSq_def power2_eq_square)

lemma palmTouch_facts:
  "frameInZone False (exampleFrame t (Some palmTouchHand))"
  "framePinchRatio (exampleFrame t (Some palmTouchHand)) = Some (Finite 0)"
  "detectOpenPalm palmTouchHand = Some True"
  by (simp_all add: exampleFrame_def palmTouchHand_def lineHand_def frameInZone_def
      frameRawPoint_def framePinchRatio_def getPinchMidpoint_def getHandSize_def getPinchRatio_def
      landmarkAt_def distance_same_x jsdiv_def isInSafeZone_def detectOpenPalm_def
      isFingerExtended_def distanceSq_def power2_eq_square)

lemma handleUI_noRects:
  "handleUIInteraction (\<lambda>i. None) s = s\<lparr>hoveredId := None, selectionProgress := 0\<rparr>"
  by (simp add: handleUIInteraction_def ids_def)

lemma sqrt_6400: "sqrt 6400 = 80"
  by (rule real_sqrt_unique) simp_all

lemma sqrt_40000: "sqrt 40000 = 200"
  by (rule real_sqrt_unique) simp_all

section \<open>Pinch entry, exit and hysteresis\<close>

lemmas frame_eval = processFrame_def update_def Let_def getHandSize_def getPinchRatio_def
  getPinchMidpoint_def cursorSource_def exampleHand_at distance_same_x jsdiv_def
  isInSafeZone_def smoothing_def lerp_def menuGesture_def detectOpenPalm_def detectVictory_def
  isFingerExtended_def modeLogic_def physics_def distanceSq_def
  PINCH_START_THRESHOLD_def PINCH_END_THRESHOLD_def PINCH_DEBOUNCE_FRAMES_def
  startStroke_def addPointToStroke_def endStroke_def MIN_DRAW_DIST_PX_def sqrt_6400

lemma drawingState_reached:
  "processFrames [pinchFrame 2000, pinchFrame 2033, pinchFrame 2066, pinchFrame 2099,
        pinchFrame 2132] initialState
     = Some drawingState"
  by (simp add: pinchFrame_def exampleFrame_def initialState_def drawingState_def frame_eval)

lemma frameInZoneD:
  assumes "frameInZone menu f"
  obtains p where "frameRawPoint menu f = Some p" "isInSafeZone p"
  using assms by (auto simp: frameInZone_def split: option.splits)

text \<open>
  Claim C1, as amended.  In \<open>DRAWING\<close> mode with the menu closed and the exit counter at
  its ceiling 3, a frame in the safe zone whose pinch ratio exceeds the end threshold 0.14
  (0.20 for instance) decrements the counter to 2 and keeps the mode \<open>DRAWING\<close>; it does
  not append the frame's filtered point: the active stroke and the path collection are
  unchanged.
\<close>

theorem release_frame_decrements:
  assumes "mode s = DRAWING" "\<not> isMenuOpen s"
    and "consecutivePinchFrames s = PINCH_DEBOUNCE_FRAMES"
    and "framePinchRatio f = Some (Finite r)" "r > PINCH_END_THRESHOLD"
    and "frameInZone False f"
  shows "\<exists>s'. processFrame f s = Some s' \<and> consecutivePinchFrames s' = 2
           \<and> mode s' = DRAWING \<and> currentPath s' = currentPath s \<and> paths s' = paths s"
proof -
  from assms(6) obtain p where p: "frameRawPoint False f = Some p" "isInSafeZone p"
    by (rule frameInZoneD)
  have "js_gt (Finite r) PINCH_END_THRESHOLD" "0 < consecutivePinchFrames s"
    using assms(3,5) by (simp_all add: PINCH_DEBOUNCE_FRAMES_def)
  from drawing_release_step[OF assms(1,2,4) this(1) p this(2)] assms(3)
  show ?thesis by (auto simp: PINCH_DEBOUNCE_FRAMES_def)
qed

lemma releaseFrame_ratio: "framePinchRatio (releaseFrame t) = Some (Finite 0.2)"
  using exampleFrame_ratio[where gap = "0.08" and cx = "0.5" and cy = "0.55"] by (simp add: releaseFrame_def)

lemma releaseFrame_zone: "frameInZone False (releaseFrame t)"
  by (simp add: frameInZone_def releaseFrame_def exampleFrame_raw isInSafeZone_def)

theorem release_frame_decrements_witness:
  "mode drawingState = DRAWING \<and> consecutivePinchFrames drawingState = 3
   \<and> framePinchRatio (releaseFrame 2165) = Some (Finite 0.2)
   \<and> (\<exists>s'. processFrame (releaseFrame 2165) drawingState = Some s' \<and> consecutivePinchFrames s' = 2
           \<and> mode s' = DRAWING \<and> currentPath s' = [\<lparr>px = 500, py = 510\<rparr>])"
proof -
  have a: "mode drawingState = DRAWING" "\<not> isMenuOpen drawingState"
    "consecutivePinchFrames drawingState = PINCH_DEBOUNCE_FRAMES"
    "currentPath drawingState = [\<lparr>px = 500, py = 510\<rparr>]"
    by (simp_all add: drawingState_def initialState_def PINCH_DEBOUNCE_FRAMES_def)
  have b: "(0.2::real) > PINCH_END_THRESHOLD" by (simp add: PINCH_END_THRESHOLD_def)
  from release_frame_decrements[OF a(1,2,3) releaseFrame_ratio b releaseFrame_zone, of 2165] a
    releaseFrame_ratio[of 2165]
  show ?thesis by (auto simp: PINCH_DEBOUNCE_FRAMES_def)
qed

text \<open>
  The claim as stated says that the frame's filtered point is still appended.  After five
  pinch frames the mode is \<open>DRAWING\<close>, the counter is 3 and the stroke is the one point
  (500, 510); the release frame of ratio 0.20 moves the filtered cursor to (500, 574), 64
  pixels away, and the stroke is still that one point.
\<close>

theorem release_frame_counterexample:
  "map_option (\<lambda>s. (mode s, consecutivePinchFrames s, currentPath s))
     (processFrames [pinchFrame 2000, pinchFrame 2033, pinchFrame 2066, pinchFrame 2099,
        pinchFrame 2132] initialState)
     = Some (DRAWING, 3, [\<lparr>px = 500, py = 510\<rparr>])
   \<and> framePinchRatio (releaseFrame 2165) = Some (Finite 0.2)
   \<and> map_option (\<lambda>s. (mode s, consecutivePinchFrames s, currentPath s, cursorPos s))
     (processFrames [pinchFrame 2000, pinchFrame 2033, pinchFrame 2066, pinchFrame 2099,
        pinchFrame 2132, releaseFrame 2165]
        initialState)
     = Some (DRAWING, 2, [\<lparr>px = 500, py = 510\<rparr>], \<lparr>px = 500, py = 574\<rparr>)"
proof -
  have "map_option (\<lambda>s. (mode s, consecutivePinchFrames s, currentPath s))
     (processFrames [pinchFrame 2000, pinchFrame 2033, pinchFrame 2066, pinchFrame 2099,
        pinchFrame 2132] initialState)
     = Some (DRAWING, 3, [\<lparr>px = 500, py = 510\<rparr>])"
    by (simp add: pinchFrame_def exampleFrame_def initialState_def frame_eval)
  moreover have "map_option (\<lambda>s. (mode s, consecutivePinchFrames s, currentPath s, cursorPos s))
     (processFrames [pinchFrame 2000, pinchFrame 2033, pinchFrame 2066, pinchFrame 2099,
        pinchFrame 2132, releaseFrame 2165]
        initialState)
     = Some (DRAWING, 2, [\<lparr>px = 500, py = 510\<rparr>], \<lparr>px = 500, py = 574\<rparr>)"
    by (simp add: pinchFrame_def releaseFrame_def exampleFrame_def initialState_def frame_eval)
  ultimately show ?thesis using releaseFrame_ratio by simp
qed

lemma processFrames_snoc:
  "processFrames (fs @ [f]) s =
     (case processFrames fs s of None \<Rightarrow> None | Some s' \<Rightarrow> processFrame f s')"
  by (induction fs arbitrary: s) (auto split: option.splits)

lemma band_run:
  assumes "mode s = DRAWING" "\<not> isMenuOpen s"
    and "\<forall>f \<in> set fs. frameInZone False f
           \<and> (\<exists>r \<le> PINCH_END_THRESHOLD. framePinchRatio f = Some (Finite r))"
  shows "\<exists>s'. processFrames fs s = Some s' \<and> mode s' = DRAWING \<and> \<not> isMenuOpen s'
           \<and> (fs \<noteq> [] \<longrightarrow> consecutivePinchFrames s' = PINCH_DEBOUNCE_FRAMES)"
  using assms(3)
proof (induction fs rule: rev_induct)
  case Nil
  then show ?case using assms(1,2) by simp
next
  case (snoc f fs)
  then obtain s1 where s1: "processFrames fs s = Some s1" "mode s1 = DRAWING" "\<not> isMenuOpen s1"
    by auto
  from snoc.prems obtain r where r: "frameInZone False f" "r \<le> PINCH_END_THRESHOLD"
    "framePinchRatio f = Some (Finite r)" by auto
  from r(1) obtain p where p: "frameRawPoint False f = Some p" "isInSafeZone p"
    by (rule frameInZoneD)
  have "\<not> js_gt (Finite r) PINCH_END_THRESHOLD" using r(2) by simp
  from drawing_hold_step[OF s1(2,3) r(3) this p] s1(1)
  show ?case by (auto simp: processFrames_snoc)
qed

text \<open>
  Claim C4.  From \<open>DRAWING\<close> mode with the menu closed, after every prefix of a sequence
  of in-zone frames whose pinch ratios are all at most the end threshold 0.14, the update
  has returned, the mode is still \<open>DRAWING\<close>, and (after at least one frame) the exit
  counter is at its ceiling 3.
\<close>

theorem hysteresis_band:
  assumes "mode s = DRAWING" "\<not> isMenuOpen s"
    and "\<forall>f \<in> set fs. frameInZone False f
           \<and> (\<exists>r \<le> PINCH_END_THRESHOLD. framePinchRatio f = Some (Finite r))"
  shows "\<forall>k \<le> length fs. \<exists>s'. processFrames (take k fs) s = Some s' \<and> mode s' = DRAWING
           \<and> (0 < k \<longrightarrow> consecutivePinchFrames s' = PINCH_DEBOUNCE_FRAMES)"
proof (intro allI impI)
  fix k assume k: "k \<le> length fs"
  have "\<forall>f \<in> set (take k fs). frameInZone False f
           \<and> (\<exists>r \<le> PINCH_END_THRESHOLD. framePinchRatio f = Some (Finite r))"
    using assms(3) by (meson in_set_takeD)
  from band_run[OF assms(1,2) this] k
  show "\<exists>s'. processFrames (take k fs) s = Some s' \<and> mode s' = DRAWING
           \<and> (0 < k \<longrightarrow> consecutivePinchFrames s' = PINCH_DEBOUNCE_FRAMES)"
    by auto
qed

lemma bandFrame_facts:
  "frameInZone False (bandFrameLow t)" "framePinchRatio (bandFrameLow t) = Some (Finite 0.1)"
  "frameInZone False (bandFrameHigh t)" "framePinchRatio (bandFrameHigh t) = Some (Finite 0.13)"
  using exampleFrame_ratio[where gap = "0.04" and cx = "0.5" and cy = "0.5"]
    exampleFrame_ratio[where gap = "0.052" and cx = "0.5" and cy = "0.5"]
  by (simp_all add: frameInZone_def bandFrameLow_def bandFrameHigh_def exampleFrame_raw isInSafeZone_def)

theorem hysteresis_band_witness:
  "\<exists>s'. processFrames [bandFrameLow 2165, bandFrameHigh 2198, bandFrameLow 2231,
           bandFrameHigh 2264] drawingState = Some s'
       \<and> mode s' = DRAWING \<and> consecutivePinchFrames s' = 3"
proof -
  let ?fs = "[bandFrameLow 2165, bandFrameHigh 2198, bandFrameLow 2231, bandFrameHigh 2264]"
  have a: "mode drawingState = DRAWING" "\<not> isMenuOpen drawingState"
    by (simp_all add: drawingState_def initialState_def)
  have lo: "\<exists>r \<le> PINCH_END_THRESHOLD. framePinchRatio (bandFrameLow t) = Some (Finite r)" for t
    by (rule exI[of _ "0.1"]) (simp add: bandFrame_facts PINCH_END_THRESHOLD_def)
  have hi: "\<exists>r \<le> PINCH_END_THRESHOLD. framePinchRatio (bandFrameHigh t) = Some (Finite r)" for t
    by (rule exI[of _ "0.13"]) (simp add: bandFrame_facts PINCH_END_THRESHOLD_def)
  have b: "\<forall>f \<in> set ?fs. frameInZone False f
           \<and> (\<exists>r \<le> PINCH_END_THRESHOLD. framePinchRatio f = Some (Finite r))"
    using lo hi bandFrame_facts(1,3) by simp
  from hysteresis_band[OF a b, rule_format, of 4]
  show ?thesis by (simp add: PINCH_DEBOUNCE_FRAMES_def)
qed


lemma quiet_entry_count:
  assumes "mode s \<noteq> DRAWING" "\<not> isMenuOpen s" "consecutivePinchFrames s = 0"
    and "\<forall>f \<in> set fs. (\<exists>lm. f_landmarks f = Some lm \<and> length lm = 21) \<and> frameInZone False f
           \<and> (\<exists>r < PINCH_START_THRESHOLD. framePinchRatio f = Some (Finite r))"
    and "\<forall>k < length fs. \<forall>t. processFrames (take k fs) s = Some t
           \<longrightarrow> \<not> firesGlobalGesture (fs ! k) t"
    and "length fs \<le> 3"
  shows "\<exists>s'. processFrames fs s = Some s' \<and> consecutivePinchFrames s' = int (length fs)
           \<and> mode s' = mode s \<and> currentPath s' = currentPath s \<and> \<not> isMenuOpen s'"
  using assms(4,5,6)
proof (induction fs rule: rev_induct)
  case Nil
  then show ?case using assms(1,2,3) by simp
next
  case (snoc f fs)
  have "\<forall>k < length fs. \<forall>t. processFrames (take k fs) s = Some t
           \<longrightarrow> \<not> firesGlobalGesture (fs ! k) t"
  proof (intro allI impI)
    fix k t assume k: "k < length fs" and t: "processFrames (take k fs) s = Some t"
    from k have e: "take k (fs @ [f]) = take k fs" "(fs @ [f]) ! k = fs ! k"
      "k < length (fs @ [f])"
      by (simp_all add: nth_append)
    from snoc.prems(2)[rule_format, of k t] e t
    show "\<not> firesGlobalGesture (fs ! k) t" by simp
  qed
  with snoc obtain s1 where s1: "processFrames fs s = Some s1"
    "consecutivePinchFrames s1 = int (length fs)" "mode s1 = mode s"
    "currentPath s1 = currentPath s" "\<not> isMenuOpen s1"
    by auto
  from snoc.prems(1) obtain lm r where r: "f_landmarks f = Some lm" "length lm = 21"
    "frameInZone False f" "r < PINCH_START_THRESHOLD" "framePinchRatio f = Some (Finite r)"
    by auto
  from r(3) obtain p where p: "frameRawPoint False f = Some p" "isInSafeZone p"
    by (rule frameInZoneD)
  from snoc.prems(2)[rule_format, of "length fs" s1] s1(1)
  have q: "\<not> firesGlobalGesture f s1" by simp
  have nd: "mode s1 \<noteq> DRAWING" using s1(3) assms(1) by simp
  have small: "\<not> consecutivePinchFrames s1 + 1 > PINCH_DEBOUNCE_FRAMES"
    using s1(2) snoc.prems(3) by (simp add: PINCH_DEBOUNCE_FRAMES_def)
  from quiet_frame_step[OF nd s1(5) r(5,1,2) q p] r(4) small s1
  show ?case by (auto simp: processFrames_snoc)
qed

text \<open>
  Claim C3, as amended.  Start in \<open>IDLE\<close> or \<open>HOVER\<close> with the menu closed and the pinch
  counter 0, and feed four frames of 21 landmarks in the safe zone with pinch ratios below
  0.09, none of which triggers a global gesture when it is processed: none shows the victory
  sign, and none completes the open-palm hold that toggles the menu.  After \<open>k < 4\<close> of them
  the counter is \<open>k\<close>, and mode and active stroke are as at the start; after the fourth the
  counter is 4, the mode is \<open>DRAWING\<close> and the active stroke is the single filtered position
  of that frame.  In any mode but \<open>DRAWING\<close>, with the menu closed, one such frame with a
  ratio of 0.09 or more sets the counter to 0.  A pinch pose that reads as an open palm is
  covered as long as the hold is not completed.
\<close>

theorem pinch_entry_debounce:
  assumes "mode s = IDLE \<or> mode s = HOVER" "\<not> isMenuOpen s" "consecutivePinchFrames s = 0"
    and "length fs = 4"
    and "\<forall>f \<in> set fs. (\<exists>lm. f_landmarks f = Some lm \<and> length lm = 21) \<and> frameInZone False f
           \<and> (\<exists>r < PINCH_START_THRESHOLD. framePinchRatio f = Some (Finite r))"
    and "\<forall>k < 4. \<forall>t. processFrames (take k fs) s = Some t
           \<longrightarrow> \<not> firesGlobalGesture (fs ! k) t"
  shows "(\<forall>k < 4. \<exists>s'. processFrames (take k fs) s = Some s'
             \<and> consecutivePinchFrames s' = int k \<and> mode s' = mode s
             \<and> currentPath s' = currentPath s \<and> \<not> isMenuOpen s')
       \<and> (\<exists>s'. processFrames fs s = Some s' \<and> consecutivePinchFrames s' = 4
             \<and> mode s' = DRAWING \<and> currentPath s' = [cursorPos s']
             \<and> smoothedPos s' = Some (cursorPos s'))
       \<and> (\<forall>t g lm r. mode t \<noteq> DRAWING \<and> \<not> isMenuOpen t
             \<and> f_landmarks g = Some lm \<and> length lm = 21 \<and> \<not> firesGlobalGesture g t
             \<and> frameInZone False g
             \<and> framePinchRatio g = Some (Finite r) \<and> r \<ge> PINCH_START_THRESHOLD
             \<longrightarrow> (\<exists>t'. processFrame g t = Some t' \<and> consecutivePinchFrames t' = 0))"
proof (intro conjI allI impI)
  have nd: "mode s \<noteq> DRAWING" using assms(1) by auto
  {
    fix k :: nat assume k: "k < 4"
    have q: "\<forall>f \<in> set (take k fs). (\<exists>lm. f_landmarks f = Some lm \<and> length lm = 21)
           \<and> frameInZone False f
           \<and> (\<exists>r < PINCH_START_THRESHOLD. framePinchRatio f = Some (Finite r))"
      using assms(5) by (meson in_set_takeD)
    have len: "length (take k fs) = k" "length (take k fs) \<le> 3" using k assms(4) by simp_all
    have g: "\<forall>j < length (take k fs). \<forall>t. processFrames (take j (take k fs)) s = Some t
           \<longrightarrow> \<not> firesGlobalGesture (take k fs ! j) t"
    proof (intro allI impI)
      fix j t assume j: "j < length (take k fs)"
        and t: "processFrames (take j (take k fs)) s = Some t"
      from j len(1) have e: "take j (take k fs) = take j fs" "take k fs ! j = fs ! j" "j < 4"
        using k by (simp_all add: min_def)
      from assms(6)[rule_format, of j t] e t
      show "\<not> firesGlobalGesture (take k fs ! j) t" by simp
    qed
    from quiet_entry_count[OF nd assms(2,3) q g len(2)] len(1)
    show "\<exists>s'. processFrames (take k fs) s = Some s'
             \<and> consecutivePinchFrames s' = int k \<and> mode s' = mode s
             \<and> currentPath s' = currentPath s \<and> \<not> isMenuOpen s'"
      by auto
  }
  note pre = this
  {
    from assms(4) obtain f fs' where fs: "fs = fs' @ [f]" "length fs' = 3"
      by (cases fs rule: rev_cases) auto
    then have tk: "take 3 fs = fs'" "fs ! 3 = f" by (simp_all add: nth_append)
    from pre[of 3] tk obtain s1 where s1: "processFrames fs' s = Some s1"
      "consecutivePinchFrames s1 = 3" "mode s1 = mode s" "\<not> isMenuOpen s1"
      by auto
    from assms(5) fs(1) obtain lm r where r: "f_landmarks f = Some lm" "length lm = 21"
      "frameInZone False f" "r < PINCH_START_THRESHOLD" "framePinchRatio f = Some (Finite r)"
      by auto
    from r(3) obtain p where p: "frameRawPoint False f = Some p" "isInSafeZone p"
      by (rule frameInZoneD)
    from assms(6)[rule_format, of 3 s1] tk s1(1) have q: "\<not> firesGlobalGesture f s1" by simp
    have nd1: "mode s1 \<noteq> DRAWING" using s1(3) nd by simp
    from quiet_frame_step[OF nd1 s1(4) r(5,1,2) q p] r(4) s1(1,2) fs(1)
    show "\<exists>s'. processFrames fs s = Some s' \<and> consecutivePinchFrames s' = 4
             \<and> mode s' = DRAWING \<and> currentPath s' = [cursorPos s']
             \<and> smoothedPos s' = Some (cursorPos s')"
      by (auto simp: processFrames_snoc PINCH_DEBOUNCE_FRAMES_def)
  }
  {
    fix t :: state and g :: frame and lm :: "HandLandmark list" and r :: real
    assume a: "mode t \<noteq> DRAWING \<and> \<not> isMenuOpen t
             \<and> f_landmarks g = Some lm \<and> length lm = 21 \<and> \<not> firesGlobalGesture g t
             \<and> frameInZone False g
             \<and> framePinchRatio g = Some (Finite r) \<and> r \<ge> PINCH_START_THRESHOLD"
    then obtain p where p: "frameRawPoint False g = Some p" "isInSafeZone p"
      using frameInZoneD by blast
    from a have "\<not> js_lt (Finite r) PINCH_START_THRESHOLD" by simp
    with quiet_frame_step[where s = t and f = g and r = "Finite r" and p = p and lm = lm] p a
    show "\<exists>t'. processFrame g t = Some t' \<and> consecutivePinchFrames t' = 0"
      by auto
  }
qed

lemmas hand_eval = victoryPinchHand_def palmPinchHand_def palmTouchHand_def palmHand_def
  lineHand_at power2_eq_square

lemma pinchFrame_facts:
  "frameInZone False (pinchFrame t)"
  "framePinchRatio (pinchFrame t) = Some (Finite 0.05)"
  using exampleFrame_ratio[where gap = "0.02" and cx = "0.5" and cy = "0.5"]
  by (simp_all add: frameInZone_def pinchFrame_def exampleFrame_raw isInSafeZone_def)

lemma pinchFrame_menu_zone: "frameInZone True (pinchFrame t)"
  by (simp add: frameInZone_def frameRawPoint_def pinchFrame_def exampleFrame_def exampleHand_at
      isInSafeZone_def)

lemma palmPinch_open_frames:
  "map_option consecutiveOpenFrames
     (processFrames [exampleFrame 2000 (Some palmPinchHand)] initialState) = Some 1"
  "map_option consecutiveOpenFrames
     (processFrames [exampleFrame 2000 (Some palmPinchHand), exampleFrame 2033 (Some palmPinchHand)]
        initialState) = Some 2"
  "map_option consecutiveOpenFrames
     (processFrames [exampleFrame 2000 (Some palmPinchHand), exampleFrame 2033 (Some palmPinchHand),
        exampleFrame 2066 (Some palmPinchHand)] initialState) = Some 3"
  by (simp_all add: exampleFrame_def initialState_def frame_eval hand_eval)

theorem pinch_entry_debounce_witness:
  "(\<exists>s'. processFrames [exampleFrame 2000 (Some palmPinchHand),
             exampleFrame 2033 (Some palmPinchHand), exampleFrame 2066 (Some palmPinchHand)]
           initialState = Some s'
        \<and> consecutivePinchFrames s' = 3 \<and> mode s' = IDLE \<and> currentPath s' = [])
   \<and> (\<exists>s'. processFrames [exampleFrame 2000 (Some palmPinchHand),
             exampleFrame 2033 (Some palmPinchHand), exampleFrame 2066 (Some palmPinchHand),
             exampleFrame 2099 (Some palmPinchHand)] initialState = Some s'
        \<and> consecutivePinchFrames s' = 4 \<and> mode s' = DRAWING \<and> currentPath s' = [cursorPos s'])
   \<and> (\<exists>t'. processFrame (releaseFrame 2066) (initialState\<lparr>consecutivePinchFrames := 2\<rparr>) = Some t'
        \<and> consecutivePinchFrames t' = 0)"
proof -
  let ?f = "\<lambda>t. exampleFrame t (Some palmPinchHand)"
  let ?fs = "[?f 2000, ?f 2033, ?f 2066, ?f 2099]"
  have a: "mode initialState = IDLE \<or> mode initialState = HOVER" "\<not> isMenuOpen initialState"
    "consecutivePinchFrames initialState = 0" "length ?fs = 4"
    by (simp_all add: initialState_def)
  have r: "\<exists>r < PINCH_START_THRESHOLD. framePinchRatio (?f t) = Some (Finite r)" for t
    by (rule exI[of _ "0.05"]) (simp add: palmPinch_facts PINCH_START_THRESHOLD_def)
  have b: "\<forall>f \<in> set ?fs. (\<exists>lm. f_landmarks f = Some lm \<and> length lm = 21)
           \<and> frameInZone False f
           \<and> (\<exists>r < PINCH_START_THRESHOLD. framePinchRatio f = Some (Finite r))"
    using r palmPinch_facts(1,2,3) by simp
  have few: "consecutiveOpenFrames t \<le> 3 \<Longrightarrow> \<not> firesGlobalGesture (?f u) t" for t u
    by (simp add: firesGlobalGesture_def palmPinch_facts)
  have c: "\<forall>k < 4. \<forall>t. processFrames (take k ?fs) initialState = Some t
           \<longrightarrow> \<not> firesGlobalGesture (?fs ! k) t"
  proof (intro allI impI)
    fix k :: nat and t :: state
    assume k: "k < 4" and t: "processFrames (take k ?fs) initialState = Some t"
    from k consider "k = 0" | "k = 1" | "k = 2" | "k = 3" by linarith
    then show "\<not> firesGlobalGesture (?fs ! k) t"
    proof cases
      case 1
      with t have "consecutiveOpenFrames t = 0" by (auto simp: initialState_def)
      with 1 few[of t 2000] show ?thesis by simp
    next
      case 2
      with t palmPinch_open_frames(1) have "consecutiveOpenFrames t = 1" by simp
      with 2 few[of t 2033] show ?thesis by simp
    next
      case 3
      with t palmPinch_open_frames(2) have "consecutiveOpenFrames t = 2"
        by (simp add: numeral_2_eq_2)
      with 3 few[of t 2066] show ?thesis by simp
    next
      case 4
      with t palmPinch_open_frames(3) have "consecutiveOpenFrames t = 3"
        by (simp add: numeral_3_eq_3)
      with 4 few[of t 2099] show ?thesis by simp
    qed
  qed
  note th = pinch_entry_debounce[OF a b c]
  have i: "mode initialState = IDLE" "currentPath initialState = []"
    by (simp_all add: initialState_def)
  have "(3::nat) < 4" by simp
  from th[THEN conjunct1, rule_format, OF this] i
  have c1: "\<exists>s'. processFrames [?f 2000, ?f 2033, ?f 2066] initialState = Some s'
        \<and> consecutivePinchFrames s' = 3 \<and> mode s' = IDLE \<and> currentPath s' = []"
    by auto
  from th[THEN conjunct2, THEN conjunct1]
  have c2: "\<exists>s'. processFrames ?fs initialState = Some s'
        \<and> consecutivePinchFrames s' = 4 \<and> mode s' = DRAWING \<and> currentPath s' = [cursorPos s']"
    by auto
  let ?t = "initialState\<lparr>consecutivePinchFrames := 2\<rparr>"
  have d1: "mode ?t \<noteq> DRAWING" "\<not> isMenuOpen ?t" by (simp_all add: initialState_def)
  have d2: "f_landmarks (releaseFrame 2066) = Some (exampleHand 0.5 0.55 0.08)"
    by (simp add: releaseFrame_def exampleFrame_def)
  have d3: "length (exampleHand 0.5 0.55 0.08) = 21" by (simp add: exampleHand_def Let_def)
  have d4: "\<not> firesGlobalGesture (releaseFrame 2066) ?t"
    by (simp add: releaseFrame_def exampleFrame_quiet)
  have d5: "(0.2::real) \<ge> PINCH_START_THRESHOLD" by (simp add: PINCH_START_THRESHOLD_def)
  from d1 d2 d3 d4 d5 releaseFrame_zone[of 2066] releaseFrame_ratio[of 2066]
  have d: "mode ?t \<noteq> DRAWING \<and> \<not> isMenuOpen ?t
       \<and> f_landmarks (releaseFrame 2066) = Some (exampleHand 0.5 0.55 0.08)
       \<and> length (exampleHand 0.5 0.55 0.08) = 21
       \<and> \<not> firesGlobalGesture (releaseFrame 2066) ?t
       \<and> frameInZone False (releaseFrame 2066)
       \<and> framePinchRatio (releaseFrame 2066) = Some (Finite 0.2)
       \<and> 0.2 \<ge> PINCH_START_THRESHOLD"
    by blast
  from th[THEN conjunct2, THEN conjunct2, rule_format, OF d]
  have c3: "\<exists>t'. processFrame (releaseFrame 2066) ?t = Some t' \<and> consecutivePinchFrames t' = 0" .
  from c1 c2 c3 show ?thesis by blast
qed

lemma palmHoldState_reached:
  "processFrames [exampleFrame 2000 (Some palmHand), exampleFrame 2033 (Some palmHand),
         exampleFrame 2066 (Some palmHand), exampleFrame 2099 (Some palmHand),
         exampleFrame 2132 (Some palmHand), exampleFrame 2165 None] initialState
     = Some palmHoldState"
  by (simp add: exampleFrame_def initialState_def frame_eval hand_eval palmHoldState_def)

lemma menuIdleState_reached:
  "processFrames [exampleFrame 2198 (Some palmHand), exampleFrame 2231 None] palmHoldState
     = Some menuIdleState"
  by (simp add: exampleFrame_def initialState_def frame_eval hand_eval palmHoldState_def
      menuIdleState_def toggleMenu_def handleUI_noRects)

text \<open>
  The claim as stated puts no condition on the pose or on the menu.  Four frames in the safe
  zone with pinch ratio 0.05 that read as the victory sign, fed to the initial state, each
  take the dissolve branch, which returns before the entry logic: the mode is still \<open>IDLE\<close>
  and the counter still 0.  From \<open>IDLE\<close> with the menu open (reached by an open-palm hold
  followed by a frame without a hand) four pinch frames of ratio 0.05 end in \<open>MENU\<close> with
  the counter 0.  From \<open>IDLE\<close> with the menu closed and the open-palm counter at 5, four
  pinch frames of ratio 0 that read as an open palm toggle the menu on the first frame and
  end in \<open>MENU\<close> with the counter 0.  In none of the three runs is a stroke opened.
\<close>

theorem pinch_entry_counterexample:
  "(mode initialState, isMenuOpen initialState, consecutivePinchFrames initialState)
     = (IDLE, False, 0)
   \<and> frameInZone False (exampleFrame 2000 (Some victoryPinchHand))
   \<and> framePinchRatio (exampleFrame 2000 (Some victoryPinchHand)) = Some (Finite 0.05)
   \<and> detectVictory victoryPinchHand = Some True
   \<and> map_option (\<lambda>s. (mode s, consecutivePinchFrames s, currentPath s))
       (processFrames [exampleFrame 2000 (Some victoryPinchHand),
          exampleFrame 2033 (Some victoryPinchHand), exampleFrame 2066 (Some victoryPinchHand),
          exampleFrame 2099 (Some victoryPinchHand)] initialState)
       = Some (IDLE, 0, [])
   \<and> processFrames [exampleFrame 2000 (Some palmHand), exampleFrame 2033 (Some palmHand),
         exampleFrame 2066 (Some palmHand), exampleFrame 2099 (Some palmHand),
         exampleFrame 2132 (Some palmHand), exampleFrame 2165 None] initialState
       = Some palmHoldState
   \<and> processFrames [exampleFrame 2198 (Some palmHand), exampleFrame 2231 None] palmHoldState
       = Some menuIdleState
   \<and> (mode menuIdleState, isMenuOpen menuIdleState, consecutivePinchFrames menuIdleState)
       = (IDLE, True, 0)
   \<and> frameInZone True (pinchFrame 2264) \<and> frameInZone False (pinchFrame 2264)
   \<and> framePinchRatio (pinchFrame 2264) = Some (Finite 0.05)
   \<and> map_option (\<lambda>s. (mode s, consecutivePinchFrames s, currentPath s))
       (processFrames [pinchFrame 2264, pinchFrame 2297, pinchFrame 2330, pinchFrame 2363]
          menuIdleState)
       = Some (MENU, 0, [])
   \<and> (mode palmHoldState, isMenuOpen palmHoldState, consecutivePinchFrames palmHoldState,
        consecutiveOpenFrames palmHoldState) = (IDLE, False, 0, 5)
   \<and> frameInZone False (exampleFrame 2198 (Some palmTouchHand))
   \<and> framePinchRatio (exampleFrame 2198 (Some palmTouchHand)) = Some (Finite 0)
   \<and> detectOpenPalm palmTouchHand = Some True
   \<and> map_option (\<lambda>s. (mode s, consecutivePinchFrames s, currentPath s))
       (processFrames [exampleFrame 2198 (Some palmTouchHand),
          exampleFrame 2231 (Some palmTouchHand), exampleFrame 2264 (Some palmTouchHand),
          exampleFrame 2297 (Some palmTouchHand)] palmHoldState)
       = Some (MENU, 0, [])"
proof -
  have i: "(mode initialState, isMenuOpen initialState, consecutivePinchFrames initialState)
     = (IDLE, False, 0)"
    "(mode menuIdleState, isMenuOpen menuIdleState, consecutivePinchFrames menuIdleState)
       = (IDLE, True, 0)"
    "(mode palmHoldState, isMenuOpen palmHoldState, consecutivePinchFrames palmHoldState,
        consecutiveOpenFrames palmHoldState) = (IDLE, False, 0, 5)"
    by (simp_all add: initialState_def menuIdleState_def palmHoldState_def)
  have a: "map_option (\<lambda>s. (mode s, consecutivePinchFrames s, currentPath s))
       (processFrames [exampleFrame 2000 (Some victoryPinchHand),
          exampleFrame 2033 (Some victoryPinchHand), exampleFrame 2066 (Some victoryPinchHand),
          exampleFrame 2099 (Some victoryPinchHand)] initialState)
       = Some (IDLE, 0, [])"
    by (simp add: exampleFrame_def initialState_def frame_eval hand_eval triggerDissolve_def)
  have b: "map_option (\<lambda>s. (mode s, consecutivePinchFrames s, currentPath s))
       (processFrames [pinchFrame 2264, pinchFrame 2297, pinchFrame 2330, pinchFrame 2363]
          menuIdleState)
       = Some (MENU, 0, [])"
    by (simp add: pinchFrame_def exampleFrame_def initialState_def frame_eval menuIdleState_def
        handleUI_noRects)
  have c: "map_option (\<lambda>s. (mode s, consecutivePinchFrames s, currentPath s))
       (processFrames [exampleFrame 2198 (Some palmTouchHand),
          exampleFrame 2231 (Some palmTouchHand), exampleFrame 2264 (Some palmTouchHand),
          exampleFrame 2297 (Some palmTouchHand)] palmHoldState)
       = Some (MENU, 0, [])"
    by (simp add: exampleFrame_def initialState_def frame_eval hand_eval palmHoldState_def
        handleUI_noRects toggleMenu_def)
  from i a b c victoryPinch_facts palmTouch_facts pinchFrame_menu_zone
    pinchFrame_facts palmHoldState_reached menuIdleState_reached
  show ?thesis by simp
qed


section \<open>Invariants of the update\<close>

lemma prepared_fields [simp]:
  "mode (prepared ch hs s) = mode s"
  "isMenuOpen (prepared ch hs s) = isMenuOpen s"
  "currentPath (prepared ch hs s) = currentPath s"
  "paths (prepared ch hs s) = paths s"
  "cursorPos (prepared ch hs s) = cursorPos s"
  "smoothedPos (prepared ch hs s) = smoothedPos s"
  "tool (prepared ch hs s) = tool s"
  "color_s (prepared ch hs s) = color_s s"
  "size_s (prepared ch hs s) = size_s s"
  by (simp_all add: prepared_def)

lemma update_out_of_zone:
  assumes "lastLandmarks s = Some lm" "getHandSize lm = Some hs" "getPinchRatio lm hs = Some r"
    and "cursorSource lm s = Some rp" "\<not> isInSafeZone \<lparr>px = 1 - px rp, py = py rp\<rparr>"
  shows "update cw ch now rects rnd s =
     Some ((if mode s = DRAWING then endStroke (prepared ch hs s) else prepared ch hs s)\<lparr>mode := IDLE\<rparr>)"
proof -
  have "cursorSource lm (prepared ch hs s) = Some rp"
    using assms(4) by (simp add: cursorSource_def prepared_def)
  then show ?thesis using assms
    by (simp add: update_def Let_def prepared_def)
qed

lemma update_in_zone:
  assumes "lastLandmarks s = Some lm" "getHandSize lm = Some hs" "getPinchRatio lm hs = Some r"
    and "cursorSource lm s = Some rp" "isInSafeZone \<lparr>px = 1 - px rp, py = py rp\<rparr>"
  shows "update cw ch now rects rnd s =
     (let s1 = smoothing ((1 - px rp) * cw) (py rp * ch) (prepared ch hs s) in
      if mode s \<noteq> DRAWING
      then do { s2 \<leftarrow> menuGesture now lm s1;
                victory \<leftarrow> detectVictory lm;
                if victory \<and> \<not> isMenuOpen s2
                then Some (triggerDissolve rnd s2)
                else modeLogic rects lm r s2 }
      else modeLogic rects lm r s1)"
proof -
  have "cursorSource lm (prepared ch hs s) = Some rp"
    using assms(4) by (simp add: cursorSource_def prepared_def)
  then show ?thesis using assms
    by (simp add: update_def Let_def prepared_def)
qed

lemma update_cases:
  assumes "update cw ch now rects rnd s = Some s'"
  obtains
    (lost) "lastLandmarks s = None"
      "s' = (if mode s = DRAWING then endStroke (s\<lparr>particles := physics ch (particles s)\<rparr>)
             else s\<lparr>particles := physics ch (particles s)\<rparr>)\<lparr>mode := IDLE, smoothedPos := None\<rparr>"
  | (out) hs where
      "s' = (if mode s = DRAWING then endStroke (prepared ch hs s) else prepared ch hs s)\<lparr>mode := IDLE\<rparr>"
  | (dissolve) lm hs a b s2 where "mode s \<noteq> DRAWING"
      "menuGesture now lm (smoothing a b (prepared ch hs s)) = Some s2"
      "\<not> isMenuOpen s2" "s' = triggerDissolve rnd s2"
  | (idle) lm hs a b s2 r where "mode s \<noteq> DRAWING"
      "menuGesture now lm (smoothing a b (prepared ch hs s)) = Some s2"
      "modeLogic rects lm r s2 = Some s'"
  | (draw) lm hs a b r where "mode s = DRAWING"
      "modeLogic rects lm r (smoothing a b (prepared ch hs s)) = Some s'"
proof (cases "lastLandmarks s")
  case None
  with assms lost show ?thesis by (simp add: update_def Let_def)
next
  case (Some lm)
  with assms obtain hs r rp where u: "getHandSize lm = Some hs" "getPinchRatio lm hs = Some r"
    "cursorSource lm s = Some rp"
    by (auto simp: update_def Let_def bind_eq_Some_conv cursorSource_def)
  show ?thesis
  proof (cases "isInSafeZone \<lparr>px = 1 - px rp, py = py rp\<rparr>")
    case False
    from update_out_of_zone[OF Some u False, of cw ch now rects rnd] assms out
    show ?thesis by simp
  next
    case True
    note eq = update_in_zone[OF Some u True, of cw ch now rects rnd]
    show ?thesis
    proof (cases "mode s = DRAWING")
      case True
      with eq assms draw show ?thesis by (simp add: Let_def)
    next
      case False
      with eq assms have
        "(menuGesture now lm (smoothing ((1 - px rp) * cw) (py rp * ch) (prepared ch hs s)) \<bind>
          (\<lambda>s2. detectVictory lm \<bind>
            (\<lambda>victory. if victory \<and> \<not> isMenuOpen s2 then Some (triggerDissolve rnd s2)
                        else modeLogic rects lm r s2))) = Some s'"
        by (simp add: Let_def)
      then obtain s2 v where
        s2: "menuGesture now lm (smoothing ((1 - px rp) * cw) (py rp * ch) (prepared ch hs s)) = Some s2"
        and v: "detectVictory lm = Some v"
        and r: "(if v \<and> \<not> isMenuOpen s2 then Some (triggerDissolve rnd s2)
                 else modeLogic rects lm r s2) = Some s'"
        unfolding bind_eq_Some_conv by blast
      show ?thesis
      proof (cases "v \<and> \<not> isMenuOpen s2")
        case True
        with r dissolve[OF False s2] show ?thesis by simp
      next
        case False
        with r idle[OF \<open>mode s \<noteq> DRAWING\<close> s2] show ?thesis by simp
      qed
    qed
  qed
qed


lemma strokePath_cong:
  "currentPath t = currentPath s \<Longrightarrow> color_s t = color_s s \<Longrightarrow> size_s t = size_s s \<Longrightarrow>
   tool t = tool s \<Longrightarrow> strokePath t = strokePath s"
  by (simp add: strokePath_def)

lemma endStroke_fields [simp]:
  "mode (endStroke s) = mode s"
  "isMenuOpen (endStroke s) = isMenuOpen s"
  "cursorPos (endStroke s) = cursorPos s"
  "smoothedPos (endStroke s) = smoothedPos s"
  "currentPath (endStroke s) = []"
  "paths (endStroke s) = (if currentPath s = [] then paths s else paths s @ [strokePath s])"
  by (simp_all add: endStroke_def strokePath_def)

lemma triggerClick_frame [simp]:
  "mode (triggerClick e s) = mode s"
  "isMenuOpen (triggerClick e s) = isMenuOpen s"
  "currentPath (triggerClick e s) = currentPath s"
  "paths (triggerClick e s) = paths s"
  "smoothedPos (triggerClick e s) = smoothedPos s"
  by (simp_all add: triggerClick_def Let_def split: option.splits)

lemma handleUI_frame [simp]:
  "mode (handleUIInteraction rects s) = mode s"
  "isMenuOpen (handleUIInteraction rects s) = isMenuOpen s"
  "currentPath (handleUIInteraction rects s) = currentPath s"
  "paths (handleUIInteraction rects s) = paths s"
  "smoothedPos (handleUIInteraction rects s) = smoothedPos s"
  by (simp_all add: handleUIInteraction_def Let_def split: option.splits)

lemma toggleMenu_fields [simp]:
  "cursorPos (toggleMenu t s) = cursorPos s"
  "smoothedPos (toggleMenu t s) = smoothedPos s"
  "isMenuOpen (toggleMenu t s) = (\<not> isMenuOpen s)"
  "mode (toggleMenu t s) = (if isMenuOpen s then HOVER else MENU)"
  "currentPath (toggleMenu t s) = []"
  "paths (toggleMenu t s) = (if currentPath s = [] then paths s else paths s @ [strokePath s])"
  by (simp_all add: toggleMenu_def Let_def strokePath_def endStroke_def)

lemma triggerDissolve_fields [simp]:
  "cursorPos (triggerDissolve rnd s) = cursorPos s"
  "smoothedPos (triggerDissolve rnd s) = smoothedPos s"
  "isMenuOpen (triggerDissolve rnd s) = isMenuOpen s"
  "mode (triggerDissolve rnd s) = mode s"
  "paths (triggerDissolve rnd s) = []"
  "currentPath (triggerDissolve rnd s) = (if paths s = [] then currentPath s else [])"
  by (simp_all add: triggerDissolve_def)

lemma menuGesture_cases:
  assumes "menuGesture now lm s = Some s2"
  obtains
    (same) "s2 = s"
  | (reset) "s2 = s\<lparr>consecutiveOpenFrames := 0\<rparr>"
  | (count) "s2 = s\<lparr>consecutiveOpenFrames := consecutiveOpenFrames s + 1\<rparr>"
  | (toggle) "s2 = (toggleMenu now (s\<lparr>consecutiveOpenFrames := consecutiveOpenFrames s + 1\<rparr>))
                    \<lparr>consecutiveOpenFrames := 0\<rparr>"
proof (cases "now - lastGestureTime s > 1000")
  case False
  with assms same show ?thesis by (simp add: menuGesture_def)
next
  case late: True
  show ?thesis
  proof (cases "detectOpenPalm lm")
    case None
    with assms late show ?thesis by (simp add: menuGesture_def)
  next
    case (Some palm)
    show ?thesis
    proof (cases palm)
      case False
      with assms late Some have "s2 = s\<lparr>consecutiveOpenFrames := 0\<rparr>"
        by (simp add: menuGesture_def)
      then show ?thesis by (rule reset)
    next
      case True
      show ?thesis
      proof (cases "consecutiveOpenFrames s + 1 > 5")
        case True
        with assms late Some \<open>palm\<close>
        have "s2 = (toggleMenu now (s\<lparr>consecutiveOpenFrames := consecutiveOpenFrames s + 1\<rparr>))
                    \<lparr>consecutiveOpenFrames := 0\<rparr>"
          by (simp add: menuGesture_def Let_def)
        then show ?thesis by (rule toggle)
      next
        case False
        with assms late Some \<open>palm\<close>
        have "s2 = s\<lparr>consecutiveOpenFrames := consecutiveOpenFrames s + 1\<rparr>"
          by (simp add: menuGesture_def Let_def)
        then show ?thesis by (rule count)
      qed
    qed
  qed
qed

lemma menuGesture_facts:
  assumes "menuGesture now lm s = Some s2"
  shows "cursorPos s2 = cursorPos s" "smoothedPos s2 = smoothedPos s"
    "(mode s2 = mode s \<and> isMenuOpen s2 = isMenuOpen s \<and> currentPath s2 = currentPath s
        \<and> paths s2 = paths s \<and> strokePath s2 = strokePath s)
     \<or> (mode s2 = (if isMenuOpen s2 then MENU else HOVER) \<and> currentPath s2 = []
        \<and> paths s2 = (if currentPath s = [] then paths s else paths s @ [strokePath s]))"
  using assms
  by (cases rule: menuGesture_cases; simp add: strokePath_def)+

lemma modeLogic_cases:
  assumes "modeLogic rects lm r s = Some s'"
  obtains
    (menu_hit) "isMenuOpen s" "s' = handleUIInteraction rects (s\<lparr>mode := MENU\<rparr>)"
  | (menu_idle) "isMenuOpen s" "s' = s\<lparr>mode := MENU, hoveredId := None, selectionProgress := 0\<rparr>"
  | (exit) "\<not> isMenuOpen s" "mode s = DRAWING"
      "s' = (endStroke (s\<lparr>consecutivePinchFrames := consecutivePinchFrames s - 1\<rparr>))\<lparr>mode := HOVER\<rparr>"
  | (release) "\<not> isMenuOpen s" "mode s = DRAWING"
      "s' = s\<lparr>consecutivePinchFrames := consecutivePinchFrames s - 1\<rparr>"
  | (hold) "\<not> isMenuOpen s" "mode s = DRAWING"
      "s' = addPointToStroke (cursorPos s) (s\<lparr>consecutivePinchFrames := PINCH_DEBOUNCE_FRAMES\<rparr>)"
  | (start) "\<not> isMenuOpen s" "mode s \<noteq> DRAWING"
      "s' = (startStroke (cursorPos s) (s\<lparr>consecutivePinchFrames := consecutivePinchFrames s + 1\<rparr>))\<lparr>mode := DRAWING\<rparr>"
  | (count) "\<not> isMenuOpen s" "mode s \<noteq> DRAWING"
      "s' = s\<lparr>consecutivePinchFrames := consecutivePinchFrames s + 1\<rparr>"
  | (reset) "\<not> isMenuOpen s" "mode s \<noteq> DRAWING"
      "s' = s\<lparr>consecutivePinchFrames := 0, mode := HOVER\<rparr>"
proof (cases "isMenuOpen s")
  case menu: True
  show ?thesis
  proof (cases "isFingerExtended lm 8 6")
    case None
    with assms menu show ?thesis by (simp add: modeLogic_def Let_def)
  next
    case (Some up)
    show ?thesis
    proof (cases up)
      case True
      with assms menu Some have "s' = handleUIInteraction rects (s\<lparr>mode := MENU\<rparr>)"
        by (simp add: modeLogic_def Let_def)
      with menu show ?thesis by (rule menu_hit)
    next
      case False
      with assms menu Some
      have "s' = s\<lparr>mode := MENU, hoveredId := None, selectionProgress := 0\<rparr>"
        by (simp add: modeLogic_def Let_def)
      with menu show ?thesis by (rule menu_idle)
    qed
  qed
next
  case closed: False
  show ?thesis
  proof (cases "mode s = DRAWING")
    case dr: True
    show ?thesis
    proof (cases "js_gt r PINCH_END_THRESHOLD")
      case False
      with assms closed dr
      have "s' = addPointToStroke (cursorPos s) (s\<lparr>consecutivePinchFrames := PINCH_DEBOUNCE_FRAMES\<rparr>)"
        by (simp add: modeLogic_def Let_def)
      with closed dr show ?thesis by (rule hold)
    next
      case gt: True
      show ?thesis
      proof (cases "consecutivePinchFrames s - 1 < 0")
        case True
        with assms closed dr gt
        have "s' = (endStroke (s\<lparr>consecutivePinchFrames := consecutivePinchFrames s - 1\<rparr>))\<lparr>mode := HOVER\<rparr>"
          by (simp add: modeLogic_def Let_def)
        with closed dr show ?thesis by (rule exit)
      next
        case False
        with assms closed dr gt
        have "s' = s\<lparr>consecutivePinchFrames := consecutivePinchFrames s - 1\<rparr>"
          by (simp add: modeLogic_def Let_def)
        with closed dr show ?thesis by (rule release)
      qed
    qed
  next
    case nd: False
    show ?thesis
    proof (cases "js_lt r PINCH_START_THRESHOLD")
      case False
      with assms closed nd have "s' = s\<lparr>consecutivePinchFrames := 0, mode := HOVER\<rparr>"
        by (simp add: modeLogic_def Let_def)
      with closed nd show ?thesis by (rule reset)
    next
      case lt: True
      show ?thesis
      proof (cases "consecutivePinchFrames s + 1 > PINCH_DEBOUNCE_FRAMES")
        case True
        with assms closed nd lt
        have "s' = (startStroke (cursorPos s) (s\<lparr>consecutivePinchFrames := consecutivePinchFrames s + 1\<rparr>))\<lparr>mode := DRAWING\<rparr>"
          by (simp add: modeLogic_def Let_def)
        with closed nd show ?thesis by (rule start)
      next
        case False
        with assms closed nd lt
        have "s' = s\<lparr>consecutivePinchFrames := consecutivePinchFrames s + 1\<rparr>"
          by (simp add: modeLogic_def Let_def)
        with closed nd show ?thesis by (rule count)
      qed
    qed
  qed
qed

lemma addPoint_fields [simp]:
  "mode (addPointToStroke p s) = mode s"
  "isMenuOpen (addPointToStroke p s) = isMenuOpen s"
  "cursorPos (addPointToStroke p s) = cursorPos s"
  "smoothedPos (addPointToStroke p s) = smoothedPos s"
  "paths (addPointToStroke p s) = paths s"
  by (simp_all add: addPointToStroke_def Let_def)

lemma addPoint_currentPath:
  "currentPath s \<noteq> [] \<Longrightarrow> currentPath (addPointToStroke p s) \<noteq> []"
  "currentPath s = [] \<Longrightarrow> currentPath (addPointToStroke p s) = []"
  "set (currentPath (addPointToStroke p s)) \<subseteq> set (currentPath s) \<union> {p}"
  by (auto simp: addPointToStroke_def Let_def)

lemma modeLogic_facts:
  assumes "modeLogic rects lm r s = Some s'"
  shows "cursorPos s' = cursorPos s \<and> smoothedPos s' = smoothedPos s
    \<and> isMenuOpen s' = isMenuOpen s
    \<and> (paths s' = paths s \<or> (currentPath s \<noteq> [] \<and> paths s' = paths s @ [strokePath s]))
    \<and> set (currentPath s') \<subseteq> set (currentPath s) \<union> {cursorPos s}"
  using assms
proof (cases rule: modeLogic_cases)
  case hold
  then show ?thesis using addPoint_currentPath(3)[of "cursorPos s" "s\<lparr>consecutivePinchFrames := PINCH_DEBOUNCE_FRAMES\<rparr>"]
    by simp
qed (auto simp: strokePath_def startStroke_def)

lemma modeLogic_drawing_nonempty:
  assumes "modeLogic rects lm r s = Some s'" "mode s = DRAWING \<longrightarrow> currentPath s \<noteq> []"
  shows "mode s' = DRAWING \<longrightarrow> currentPath s' \<noteq> []"
  using assms
proof (cases rule: modeLogic_cases)
  case hold
  then show ?thesis using assms(2) addPoint_currentPath(1)[of "s\<lparr>consecutivePinchFrames := PINCH_DEBOUNCE_FRAMES\<rparr>" "cursorPos s"]
    by simp
qed (simp_all add: startStroke_def)

lemma modeLogic_strokeInv:
  assumes "modeLogic rects lm r s = Some s'" "strokeInv s"
  shows "strokeInv s'"
  using assms(1)
proof (cases rule: modeLogic_cases)
  case hold
  then show ?thesis using assms(2) addPoint_currentPath(1)[of "s\<lparr>consecutivePinchFrames := PINCH_DEBOUNCE_FRAMES\<rparr>" "cursorPos s"]
    by (simp add: strokeInv_def)
qed (use assms(2) in \<open>auto simp: startStroke_def strokeInv_def\<close>)


lemma strokePath_tracking [simp]:
  "strokePath (smoothing a b s) = strokePath s"
  "strokePath (prepared ch hs s) = strokePath s"
  "strokePath (s\<lparr>particles := ps\<rparr>) = strokePath s"
  by (simp_all add: strokePath_def)

lemma update_paths:
  assumes "update cw ch now rects rnd s = Some s'"
  shows "paths s' = paths s \<or> paths s' = paths s @ [strokePath s] \<or> paths s' = []"
  using assms
proof (cases rule: update_cases)
  case lost
  then show ?thesis by simp
next
  case (out hs)
  then show ?thesis by simp
next
  case (dissolve lm hs a b s2)
  then show ?thesis by simp
next
  case (idle lm hs a b s2 r)
  from menuGesture_facts(3)[OF idle(2)] modeLogic_facts[OF idle(3)]
  show ?thesis by auto
next
  case (draw lm hs a b r)
  from modeLogic_facts[OF draw(2)] show ?thesis by auto
qed

lemma update_drawing_nonempty:
  assumes "update cw ch now rects rnd s = Some s'" "mode s = DRAWING \<longrightarrow> currentPath s \<noteq> []"
  shows "mode s' = DRAWING \<longrightarrow> currentPath s' \<noteq> []"
  using assms(1)
proof (cases rule: update_cases)
  case lost
  then show ?thesis by simp
next
  case (out hs)
  then show ?thesis by simp
next
  case (dissolve lm hs a b s2)
  from menuGesture_facts(3)[OF dissolve(2)] dissolve(1,4)
  have "mode s' \<noteq> DRAWING" by (auto split: if_splits)
  then show ?thesis by simp
next
  case (idle lm hs a b s2 r)
  from menuGesture_facts(3)[OF idle(2)] idle(1)
  have "mode s2 \<noteq> DRAWING" by (auto split: if_splits)
  then have "mode s2 = DRAWING \<longrightarrow> currentPath s2 \<noteq> []" by simp
  with modeLogic_drawing_nonempty[OF idle(3)] show ?thesis by simp
next
  case (draw lm hs a b r)
  from assms(2) have "mode (smoothing a b (prepared ch hs s)) = DRAWING \<longrightarrow>
      currentPath (smoothing a b (prepared ch hs s)) \<noteq> []" by simp
  with modeLogic_drawing_nonempty[OF draw(2)] show ?thesis by simp
qed

lemma update_strokeInv:
  assumes "update cw ch now rects rnd s = Some s'" "strokeInv s"
  shows "strokeInv s'"
  using assms(1)
proof (cases rule: update_cases)
  case lost
  then show ?thesis using assms(2) by (auto simp: strokeInv_def)
next
  case (out hs)
  then show ?thesis using assms(2) by (auto simp: strokeInv_def)
next
  case (dissolve lm hs a b s2)
  from menuGesture_facts(3)[OF dissolve(2)] dissolve(1) assms(2)
  have "mode s2 \<noteq> DRAWING \<and> currentPath s2 = []"
    by (auto simp: strokeInv_def split: if_splits)
  with dissolve(4) show ?thesis by (simp add: strokeInv_def)
next
  case (idle lm hs a b s2 r)
  from menuGesture_facts(3)[OF idle(2)] idle(1) assms(2)
  have "strokeInv s2" by (auto simp: strokeInv_def split: if_splits)
  with modeLogic_strokeInv[OF idle(3)] show ?thesis by simp
next
  case (draw lm hs a b r)
  from assms(2) have "strokeInv (smoothing a b (prepared ch hs s))"
    by (auto simp: strokeInv_def)
  with modeLogic_strokeInv[OF draw(2)] show ?thesis by simp
qed

lemma reachable_strokeInv: "reachable s \<Longrightarrow> strokeInv s"
proof (induction rule: reachable.induct)
  case reach_init
  show ?case by (simp add: strokeInv_def initialState_def)
next
  case (reach_results s results)
  then show ?case by (auto simp: strokeInv_def onResults_def split: option.splits list.splits)
next
  case (reach_camera s)
  then show ?case by (auto simp: strokeInv_def)
next
  case (reach_update s canvasWidth canvasHeight now rects rnd s')
  then show ?case using update_strokeInv by blast
qed

text \<open>
  Claim C7.  The state has a single active stroke, the field \<open>currentPath\<close>.  In every
  state reachable from the initial state, \<open>DRAWING\<close> mode implies that the active stroke
  is not empty.  An update from such a state leaves the path collection as it is, or
  appends to it the one path made of the active stroke, or empties it; the detector
  callback leaves paths and active stroke alone.  So a finalized path is never changed,
  only removed when the whole collection is cleared.
\<close>

theorem stroke_invariants:
  assumes "reachable s"
  shows "(mode s = DRAWING \<longrightarrow> currentPath s \<noteq> [])
       \<and> (\<forall>cw ch now rects rnd s'. update cw ch now rects rnd s = Some s' \<longrightarrow>
             paths s' = paths s
             \<or> paths s' = paths s @ [\<lparr>points = currentPath s, color = color_s s,
                                         width = size_s s, isEraser = (tool s = ERASER)\<rparr>]
             \<or> paths s' = [])
       \<and> (\<forall>results. paths (onResults results s) = paths s
                    \<and> currentPath (onResults results s) = currentPath s)"
proof -
  have "mode s = DRAWING \<longrightarrow> currentPath s \<noteq> []"
    using reachable_strokeInv[OF assms] by (simp add: strokeInv_def)
  moreover have "\<forall>results. paths (onResults results s) = paths s
                    \<and> currentPath (onResults results s) = currentPath s"
    by (simp add: onResults_def split: option.splits list.splits)
  ultimately show ?thesis
    using update_paths[of _ _ _ _ _ s] unfolding strokePath_def by blast
qed

lemma processFrame_reachable:
  assumes "reachable s" "processFrame f s = Some s'"
  shows "reachable s'"
proof -
  have "reachable (s\<lparr>lastLandmarks := f_landmarks f\<rparr>)"
  proof (cases "f_landmarks f")
    case None
    with reach_results[OF assms(1), of None] show ?thesis by (simp add: onResults_def)
  next
    case (Some lm)
    with reach_results[OF assms(1), of "Some [lm]"] show ?thesis by (simp add: onResults_def)
  qed
  from this assms(2)[unfolded processFrame_def] show ?thesis by (rule reach_update)
qed

lemma processFrames_reachable:
  "reachable s \<Longrightarrow> processFrames fs s = Some s' \<Longrightarrow> reachable s'"
proof (induction fs arbitrary: s)
  case Nil
  then show ?case by simp
next
  case (Cons f fs)
  then show ?case by (auto split: option.splits dest: processFrame_reachable)
qed

lemma drawingState_reachable: "reachable drawingState"
  using processFrames_reachable[OF reach_init drawingState_reached] .

theorem stroke_invariants_witness:
  "reachable drawingState \<and> mode drawingState = DRAWING \<and> currentPath drawingState \<noteq> []
   \<and> (\<exists>s'. update 1000 1000 2165 (\<lambda>i. None) (\<lambda>k. 1 / 2) (onResults None drawingState) = Some s'
          \<and> paths s' = [\<lparr>points = [\<lparr>px = 500, py = 510\<rparr>], color = ''#00FF00'', width = 5,
                           isEraser = False\<rparr>])
   \<and> paths (onResults None drawingState) = []"
proof -
  let ?t = "onResults None drawingState"
  have m: "mode drawingState = DRAWING" by (simp add: drawingState_def initialState_def)
  note th = stroke_invariants[OF drawingState_reachable]
  from th m have ne: "currentPath drawingState \<noteq> []" by simp
  from th have p: "paths ?t = []" by (simp add: drawingState_def initialState_def)
  have rt: "reachable ?t" by (rule reach_results[OF drawingState_reachable])
  obtain s' where u: "update 1000 1000 2165 (\<lambda>i. None) (\<lambda>k. 1 / 2) ?t = Some s'"
    by (simp add: update_def Let_def onResults_def)
  from stroke_invariants[OF rt] u
  have "paths s' = paths ?t
      \<or> paths s' = paths ?t @ [\<lparr>points = currentPath ?t, color = color_s ?t,
                                  width = size_s ?t, isEraser = (tool ?t = ERASER)\<rparr>]
      \<or> paths s' = []"
    by blast
  moreover from u have "paths s' \<noteq> []"
    by (auto simp: update_def Let_def onResults_def drawingState_def initialState_def endStroke_def)
  ultimately have "paths s' = [\<lparr>points = [\<lparr>px = 500, py = 510\<rparr>], color = ''#00FF00'',
      width = 5, isEraser = False\<rparr>]"
    by (simp add: onResults_def drawingState_def initialState_def)
  with u drawingState_reachable m ne p show ?thesis by blast
qed

section \<open>Loss of tracking\<close>

text \<open>
  Claim C2.  Both loss-of-tracking paths finalize the active stroke and force the mode to
  \<open>IDLE\<close>, but only the no-landmarks path clears the position filter.  From the drawing
  state, whose filter holds (500, 510), a frame whose mirrored cursor source (0.03, 0.51)
  lies outside the safe zone finalizes the one-point stroke, sets \<open>IDLE\<close> and leaves
  \<open>smoothedPos\<close> at (500, 510); the frame without landmarks does the same and sets
  \<open>smoothedPos\<close> to null.
\<close>

theorem out_of_zone_filter_not_reset:
  "frameRawPoint False (edgeFrame 2165) = Some \<lparr>px = 0.03, py = 0.51\<rparr>
   \<and> map_option (\<lambda>s. (mode s, currentPath s, map points (paths s), smoothedPos s))
        (processFrame (edgeFrame 2165) drawingState)
       = Some (IDLE, [], [[\<lparr>px = 500, py = 510\<rparr>]], Some \<lparr>px = 500, py = 510\<rparr>)
   \<and> map_option (\<lambda>s. (mode s, currentPath s, map points (paths s), smoothedPos s))
        (processFrame (exampleFrame 2165 None) drawingState)
       = Some (IDLE, [], [[\<lparr>px = 500, py = 510\<rparr>]], None)"
proof -
  have "frameRawPoint False (edgeFrame 2165) = Some \<lparr>px = 0.03, py = 0.51\<rparr>"
    by (simp add: edgeFrame_def exampleFrame_raw)
  moreover have "map_option (\<lambda>s. (mode s, currentPath s, map points (paths s), smoothedPos s))
        (processFrame (edgeFrame 2165) drawingState)
       = Some (IDLE, [], [[\<lparr>px = 500, py = 510\<rparr>]], Some \<lparr>px = 500, py = 510\<rparr>)"
    by (simp add: edgeFrame_def exampleFrame_def drawingState_def initialState_def frame_eval)
  moreover have "map_option (\<lambda>s. (mode s, currentPath s, map points (paths s), smoothedPos s))
        (processFrame (exampleFrame 2165 None) drawingState)
       = Some (IDLE, [], [[\<lparr>px = 500, py = 510\<rparr>]], None)"
    by (simp add: exampleFrame_def drawingState_def initialState_def frame_eval)
  ultimately show ?thesis by simp
qed


section \<open>The mirrored cursor\<close>

lemma in_zone_frame_result:
  assumes "f_landmarks f = Some lm" "length lm = 21"
    and "framePinchRatio f = Some r" "frameRawPoint (isMenuOpen s) f = Some p" "isInSafeZone p"
  shows "\<exists>s'. processFrame f s = Some s'
           \<and> cursorPos s' = cursorPos (smoothing (px p * f_width f) (py p * f_height f) s)
           \<and> smoothedPos s' = Some (cursorPos s')
           \<and> set (currentPath s') \<subseteq> set (currentPath s) \<union> {cursorPos s'}"
proof -
  from processFrame_in_zone[OF assms(3,4,5)] assms(1) obtain hs where
    pf: "processFrame f s =
     (if mode s \<noteq> DRAWING
      then do { s2 \<leftarrow> menuGesture (f_now f) lm (tracked f hs p s);
                victory \<leftarrow> detectVictory lm;
                if victory \<and> \<not> isMenuOpen s2
                then Some (triggerDissolve (f_rnd f) s2)
                else modeLogic (f_rects f) lm r s2 }
      else modeLogic (f_rects f) lm r (tracked f hs p s))"
    by auto
  let ?t = "tracked f hs p s"
  let ?c = "cursorPos (smoothing (px p * f_width f) (py p * f_height f) s)"
  from isFingerExtended_total[OF assms(2), of 8 6] obtain up where
    up: "isFingerExtended lm 8 6 = Some up" by auto
  show ?thesis
  proof (cases "mode s = DRAWING")
    case True
    from modeLogic_total[OF up] obtain s' where s': "modeLogic (f_rects f) lm r ?t = Some s'"
      by blast
    from modeLogic_facts[OF s'] have "cursorPos s' = ?c" "smoothedPos s' = Some ?c"
      "set (currentPath s') \<subseteq> set (currentPath s) \<union> {?c}" by simp_all
    with pf True s' show ?thesis by simp
  next
    case False
    from detectOpenPalm_total[OF assms(2)] obtain palm where "detectOpenPalm lm = Some palm"
      by blast
    from menuGesture_total[OF this] obtain s2 where s2: "menuGesture (f_now f) lm ?t = Some s2"
      by blast
    from detectVictory_total[OF assms(2)] obtain v where v: "detectVictory lm = Some v" by blast
    from menuGesture_facts[OF s2] have g: "cursorPos s2 = ?c" "smoothedPos s2 = Some ?c"
      "set (currentPath s2) \<subseteq> set (currentPath s)" by auto
    show ?thesis
    proof (cases "v \<and> \<not> isMenuOpen s2")
      case True
      with pf False s2 v have "processFrame f s = Some (triggerDissolve (f_rnd f) s2)" by simp
      moreover from g have "cursorPos (triggerDissolve (f_rnd f) s2) = ?c"
        "smoothedPos (triggerDissolve (f_rnd f) s2) = Some ?c"
        "set (currentPath (triggerDissolve (f_rnd f) s2)) \<subseteq> set (currentPath s) \<union> {?c}"
        by auto
      ultimately show ?thesis by simp
    next
      case nv: False
      from modeLogic_total[OF up] obtain s' where s': "modeLogic (f_rects f) lm r s2 = Some s'"
        by blast
      from modeLogic_facts[OF s'] g have "cursorPos s' = ?c" "smoothedPos s' = Some ?c"
        "set (currentPath s') \<subseteq> set (currentPath s) \<union> {?c}" by auto
      moreover from pf False s2 v nv s' have "processFrame f s = Some s'" by auto
      ultimately show ?thesis by simp
    qed
  qed
qed

lemma out_of_zone_frame_result:
  assumes "framePinchRatio f = Some r" "frameRawPoint (isMenuOpen s) f = Some p" "\<not> isInSafeZone p"
  shows "\<exists>s'. processFrame f s = Some s' \<and> mode s' = IDLE
           \<and> cursorPos s' = cursorPos s \<and> smoothedPos s' = smoothedPos s
           \<and> currentPath s' = (if mode s = DRAWING then [] else currentPath s)
           \<and> paths s' = (if mode s = DRAWING \<and> currentPath s \<noteq> []
                          then paths s @ [strokePath s] else paths s)"
proof -
  from processFrame_out_of_zone[OF assms] obtain hs where
    "processFrame f s =
     Some ((if mode s = DRAWING then endStroke (prepared (f_height f) hs (s\<lparr>lastLandmarks := f_landmarks f\<rparr>))
            else prepared (f_height f) hs (s\<lparr>lastLandmarks := f_landmarks f\<rparr>))\<lparr>mode := IDLE\<rparr>)"
    by blast
  then show ?thesis by (simp add: strokePath_def)
qed

text \<open>
  Claim C10.  Let a frame carry 21 landmarks and let \<open>rp\<close> be its cursor source (index tip
  with the menu open, pinch midpoint otherwise).  The safe-zone test is made on
  \<open>(1 - x, y)\<close> of \<open>rp\<close>: if that point is not strictly inside
  \<open>(0.05, 0.95) \<times> (0.05, 0.95)\<close> the update takes the out-of-zone path (mode \<open>IDLE\<close>,
  cursor and filter untouched, no point added); if it is, the update returns with the
  cursor equal to the filter output for the raw pixel point
  \<open>((1 - x) * width, y * height)\<close>, the filter state equal to the cursor, and every point
  of the active stroke either there before or equal to that cursor.  The filter output is
  the raw pixel point itself on the first sample and the blend of the previous smoothed
  point with it afterwards.
\<close>

theorem mirrored_cursor:
  assumes "f_landmarks f = Some lm" "length lm = 21" "cursorSource lm s = Some rp"
  shows "(\<not> (0.05 < 1 - px rp \<and> 1 - px rp < 0.95 \<and> 0.05 < py rp \<and> py rp < 0.95) \<longrightarrow>
            (\<exists>s'. processFrame f s = Some s' \<and> mode s' = IDLE
                \<and> cursorPos s' = cursorPos s \<and> smoothedPos s' = smoothedPos s
                \<and> set (currentPath s') \<subseteq> set (currentPath s)))
       \<and> (0.05 < 1 - px rp \<and> 1 - px rp < 0.95 \<and> 0.05 < py rp \<and> py rp < 0.95 \<longrightarrow>
            (\<exists>s'. processFrame f s = Some s'
                \<and> cursorPos s' =
                    cursorPos (smoothing ((1 - px rp) * f_width f) (py rp * f_height f) s)
                \<and> smoothedPos s' = Some (cursorPos s')
                \<and> set (currentPath s') \<subseteq> set (currentPath s) \<union> {cursorPos s'}))
       \<and> (smoothedPos s = None \<longrightarrow>
            cursorPos (smoothing ((1 - px rp) * f_width f) (py rp * f_height f) s)
              = \<lparr>px = (1 - px rp) * f_width f, py = py rp * f_height f\<rparr>)
       \<and> (\<forall>q. smoothedPos s = Some q \<longrightarrow>
            cursorPos (smoothing ((1 - px rp) * f_width f) (py rp * f_height f) s)
              = (let alpha = lerp 0.1 0.8
                      (min 1 (sqrt (((1 - px rp) * f_width f - px q) ^ 2
                                    + (py rp * f_height f - py q) ^ 2) / 80))
                 in \<lparr>px = lerp (px q) ((1 - px rp) * f_width f) alpha,
                     py = lerp (py q) (py rp * f_height f) alpha\<rparr>))"
proof -
  let ?p = "\<lparr>px = 1 - px rp, py = py rp\<rparr>"
  from pinchRatio_total[OF assms(2)] assms(1) obtain r where r: "framePinchRatio f = Some r"
    by (auto simp: framePinchRatio_def)
  have p: "frameRawPoint (isMenuOpen s) f = Some ?p"
    using assms(1,3) by (auto simp: frameRawPoint_def cursorSource_def)
  have z: "isInSafeZone ?p \<longleftrightarrow>
      0.05 < 1 - px rp \<and> 1 - px rp < 0.95 \<and> 0.05 < py rp \<and> py rp < 0.95"
    by (simp add: isInSafeZone_def)
  have a: "\<not> isInSafeZone ?p \<longrightarrow>
            (\<exists>s'. processFrame f s = Some s' \<and> mode s' = IDLE
                \<and> cursorPos s' = cursorPos s \<and> smoothedPos s' = smoothedPos s
                \<and> set (currentPath s') \<subseteq> set (currentPath s))"
  proof
    assume "\<not> isInSafeZone ?p"
    from out_of_zone_frame_result[OF r p this] show "\<exists>s'. processFrame f s = Some s' \<and> mode s' = IDLE
                \<and> cursorPos s' = cursorPos s \<and> smoothedPos s' = smoothedPos s
                \<and> set (currentPath s') \<subseteq> set (currentPath s)"
      by auto
  qed
  have b: "isInSafeZone ?p \<longrightarrow>
            (\<exists>s'. processFrame f s = Some s'
                \<and> cursorPos s' =
                    cursorPos (smoothing ((1 - px rp) * f_width f) (py rp * f_height f) s)
                \<and> smoothedPos s' = Some (cursorPos s')
                \<and> set (currentPath s') \<subseteq> set (currentPath s) \<union> {cursorPos s'})"
  proof
    assume "isInSafeZone ?p"
    from in_zone_frame_result[OF assms(1,2) r p this]
    show "\<exists>s'. processFrame f s = Some s'
                \<and> cursorPos s' =
                    cursorPos (smoothing ((1 - px rp) * f_width f) (py rp * f_height f) s)
                \<and> smoothedPos s' = Some (cursorPos s')
                \<and> set (currentPath s') \<subseteq> set (currentPath s) \<union> {cursorPos s'}"
      by simp
  qed
  have c: "smoothedPos s = None \<longrightarrow>
            cursorPos (smoothing ((1 - px rp) * f_width f) (py rp * f_height f) s)
              = \<lparr>px = (1 - px rp) * f_width f, py = py rp * f_height f\<rparr>"
    by (simp add: smoothing_def Let_def)
  have d: "\<forall>q. smoothedPos s = Some q \<longrightarrow>
            cursorPos (smoothing ((1 - px rp) * f_width f) (py rp * f_height f) s)
              = (let alpha = lerp 0.1 0.8
                      (min 1 (sqrt (((1 - px rp) * f_width f - px q) ^ 2
                                    + (py rp * f_height f - py q) ^ 2) / 80))
                 in \<lparr>px = lerp (px q) ((1 - px rp) * f_width f) alpha,
                     py = lerp (py q) (py rp * f_height f) alpha\<rparr>)"
    by (simp add: smoothing_def Let_def)
  from a b c d show ?thesis unfolding z by blast
qed


lemma exampleHand_length: "length (exampleHand cx cy gap) = 21"
  by (simp add: exampleHand_def Let_def)

lemma exampleHand_source:
  "cursorSource (exampleHand cx cy gap) initialState = Some \<lparr>px = cx, py = cy + gap / 2\<rparr>"
  "cursorSource (exampleHand cx cy gap) drawingState = Some \<lparr>px = cx, py = cy + gap / 2\<rparr>"
  by (simp_all add: cursorSource_def initialState_def drawingState_def getPinchMidpoint_def
      exampleHand_at)

theorem mirrored_cursor_witness:
  "(\<exists>s'. processFrame (leftFrame 2000) initialState = Some s'
        \<and> cursorPos s' = \<lparr>px = 700, py = 510\<rparr> \<and> smoothedPos s' = Some \<lparr>px = 700, py = 510\<rparr>)
   \<and> (\<exists>s'. processFrame (leftFrame 2165) drawingState = Some s'
        \<and> cursorPos s' = \<lparr>px = 660, py = 510\<rparr> \<and> smoothedPos s' = Some \<lparr>px = 660, py = 510\<rparr>)
   \<and> (\<exists>s'. processFrame (edgeFrame 2165) drawingState = Some s' \<and> mode s' = IDLE
        \<and> cursorPos s' = \<lparr>px = 500, py = 510\<rparr>)"
proof -
  have l: "f_landmarks (leftFrame 2000) = Some (exampleHand 0.3 0.5 0.02)"
    "f_width (leftFrame 2000) = 1000" "f_height (leftFrame 2000) = 1000"
    by (simp_all add: leftFrame_def exampleFrame_def)
  have e: "f_landmarks (edgeFrame 2165) = Some (exampleHand 0.97 0.5 0.02)"
    by (simp add: edgeFrame_def exampleFrame_def)
  have i: "smoothedPos initialState = None" by (simp add: initialState_def)
  have d: "cursorPos drawingState = \<lparr>px = 500, py = 510\<rparr>"
    by (simp add: drawingState_def initialState_def)
  from mirrored_cursor[OF l(1) exampleHand_length exampleHand_source(1)] l(2,3) i
  have a: "\<exists>s'. processFrame (leftFrame 2000) initialState = Some s'
        \<and> cursorPos s' = \<lparr>px = 700, py = 510\<rparr> \<and> smoothedPos s' = Some \<lparr>px = 700, py = 510\<rparr>"
    by auto
  from mirrored_cursor[OF e exampleHand_length exampleHand_source(2)] d
  have b: "\<exists>s'. processFrame (edgeFrame 2165) drawingState = Some s' \<and> mode s' = IDLE
        \<and> cursorPos s' = \<lparr>px = 500, py = 510\<rparr>"
    by auto
  have l2: "f_landmarks (leftFrame 2165) = Some (exampleHand 0.3 0.5 0.02)"
    "f_width (leftFrame 2165) = 1000" "f_height (leftFrame 2165) = 1000"
    by (simp_all add: leftFrame_def exampleFrame_def)
  have q: "smoothedPos drawingState = Some \<lparr>px = 500, py = 510\<rparr>"
    by (simp add: drawingState_def initialState_def)
  from mirrored_cursor[OF l2(1) exampleHand_length exampleHand_source(2)] l2(2,3) q
  have c: "\<exists>s'. processFrame (leftFrame 2165) drawingState = Some s'
        \<and> cursorPos s' = \<lparr>px = 660, py = 510\<rparr> \<and> smoothedPos s' = Some \<lparr>px = 660, py = 510\<rparr>"
    by (auto simp: Let_def lerp_def sqrt_40000)
  from a b c show ?thesis by blast
qed

end
